theory Spec2Isabelle
  imports Main
begin

section \<open>Python strings as used by getmac.py\<close>

text \<open>
  The module works on 8-bit strings (the output of external commands, interface names,
  addresses). A Python string is a \<^typ>\<open>string\<close>, one \<^typ>\<open>char\<close> per byte.
  \<^verbatim>\<open>str.lower\<close> maps the letters A..Z to a..z and leaves every other byte alone;
  \<^verbatim>\<open>str.strip\<close>, \<^verbatim>\<open>str.rstrip\<close> and \<^verbatim>\<open>str.split\<close> treat space, tab, line feed,
  vertical tab, form feed and carriage return as whitespace.
\<close>

definition upper_letters :: string where
  "upper_letters = ''ABCDEFGHIJKLMNOPQRSTUVWXYZ''"

definition lower_letters :: string where
  "lower_letters = ''abcdefghijklmnopqrstuvwxyz''"

definition lower_char :: "char \<Rightarrow> char" where
  "lower_char c = (case map_of (zip upper_letters lower_letters) c of None \<Rightarrow> c | Some d \<Rightarrow> d)"

definition py_lower :: "string \<Rightarrow> string" where
  "py_lower s = map lower_char s"

definition whitespace :: string where
  "whitespace = [CHR '' '', CHR 0x09, CHR 0x0A, CHR 0x0B, CHR 0x0C, CHR 0x0D]"

definition is_space :: "char \<Rightarrow> bool" where
  "is_space c = (c \<in> set whitespace)"

definition py_lstrip :: "string \<Rightarrow> string" where
  "py_lstrip s = dropWhile is_space s"

definition py_rstrip :: "string \<Rightarrow> string" where
  "py_rstrip s = rev (dropWhile is_space (rev s))"

definition py_strip :: "string \<Rightarrow> string" where
  "py_strip s = py_rstrip (py_lstrip s)"

text \<open>\<^verbatim>\<open>s.replace(old, new)\<close> for a one-character \<^verbatim>\<open>old\<close>.\<close>

definition py_replace :: "char \<Rightarrow> string \<Rightarrow> string \<Rightarrow> string" where
  "py_replace old new s = concat (map (\<lambda>c. if c = old then new else [c]) s)"

text \<open>\<^verbatim>\<open>sep.join(parts)\<close>.\<close>

fun py_join :: "string \<Rightarrow> string list \<Rightarrow> string" where
  "py_join sep [] = []"
| "py_join sep [p] = p"
| "py_join sep (p # q # ps) = p @ sep @ py_join sep (q # ps)"

text \<open>\<^verbatim>\<open>[mac[i:i + 2] for i in range(0, len(mac), 2)]\<close>: the slices of two characters,
  the last one shorter when the length is odd.\<close>

fun pairs_of :: "string \<Rightarrow> string list" where
  "pairs_of [] = []"
| "pairs_of [a] = [[a]]"
| "pairs_of (a # b # s) = [a, b] # pairs_of s"

text \<open>\<^verbatim>\<open>str(n)\<close> of an integer: its decimal digits, with a minus sign when negative.\<close>

function dec_digits :: "nat \<Rightarrow> string" where
  "dec_digits n =
     (if n < 10 then [''0123456789'' ! n]
      else dec_digits (n div 10) @ [''0123456789'' ! (n mod 10)])"
  by pat_completeness auto
termination
  by (relation "measure id") auto

definition str_of_int :: "int \<Rightarrow> string" where
  "str_of_int i = (if i < 0 then CHR ''-'' # dec_digits (nat (- i)) else dec_digits (nat i))"

section \<open>Raw candidates and their normalisation\<close>

text \<open>
  A probe returns a string (a regular-expression group, or the hexadecimal text built from
  the bytes of a system call) or, for \<^verbatim>\<open>_find_mac\<close>, an integer. \<^verbatim>\<open>get_mac_address\<close>
  applies \<^verbatim>\<open>str\<close> to whatever it got.
\<close>

datatype raw = RStr string | RInt int

fun py_str :: "raw \<Rightarrow> string" where
  "py_str (RStr s) = s"
| "py_str (RInt i) = str_of_int i"

text \<open>
  Lines 126--139 of \<^verbatim>\<open>get_mac_address\<close>:
  \<^verbatim>\<open>
    mac = str(mac).lower().strip().replace('-', ':').replace(' ', '')
    if len(mac) == 12:
        mac = ':'.join(mac[i:i + 2] for i in range(0, len(mac), 2))
    if len(mac) != 17:
        mac = None
  \<close>
\<close>

definition cleaned :: "raw \<Rightarrow> string" where
  "cleaned m = py_replace CHR '' '' [] (py_replace CHR ''-'' '':'' (py_strip (py_lower (py_str m))))"

definition insert_applies :: "string \<Rightarrow> bool" where
  "insert_applies mac = (length mac = 12)"

definition add_colons :: "string \<Rightarrow> string" where
  "add_colons mac = py_join '':'' (pairs_of mac)"

definition fix_no_colons :: "string \<Rightarrow> string" where
  "fix_no_colons mac = (if insert_applies mac then add_colons mac else mac)"

definition require_17 :: "string \<Rightarrow> string option" where
  "require_17 mac = (if length mac \<noteq> 17 then None else Some mac)"

definition normalize :: "raw \<Rightarrow> string option" where
  "normalize m = require_17 (fix_no_colons (cleaned m))"

section \<open>Exceptions\<close>

text \<open>
  The exceptions that the module and the library calls it makes can raise. All of them are
  subclasses of \<^verbatim>\<open>Exception\<close>, so the \<^verbatim>\<open>except Exception\<close> of the probe loop catches
  each of them. A computation that can raise returns \<open>Inl\<close> of the exception.
\<close>

datatype exn =
    CalledProcessError int
  | OSError
  | ValueError
  | IndexError
  | StructError
  | NotImplementedError
  | WindowsError
  | HostLookupError

section \<open>Regular expressions\<close>

text \<open>
  The patterns of the module use literals, character classes, concatenation, alternation,
  greedy repetition and capturing groups. \<open>rx_match r s c\<close> lists, in the order in which a
  backtracking matcher tries them, the ways \<open>r\<close> matches a prefix of \<open>s\<close>: the rest of the
  text, and the groups captured so far. \<^verbatim>\<open>re.search\<close> takes the first match at the leftmost
  start position.
\<close>

datatype rx = Eps | In string | NotIn string | Cat rx rx | Alt rx rx | Star rx | Group nat rx

type_synonym caps = "nat \<Rightarrow> string option"

function rx_match :: "rx \<Rightarrow> string \<Rightarrow> caps \<Rightarrow> (string \<times> caps) list" where
  "rx_match Eps s c = [(s, c)]"
| "rx_match (In cs) s c = (case s of [] \<Rightarrow> [] | x # xs \<Rightarrow> if x \<in> set cs then [(xs, c)] else [])"
| "rx_match (NotIn cs) s c = (case s of [] \<Rightarrow> [] | x # xs \<Rightarrow> if x \<notin> set cs then [(xs, c)] else [])"
| "rx_match (Cat a b) s c = concat (map (\<lambda>(s', c'). rx_match b s' c') (rx_match a s c))"
| "rx_match (Alt a b) s c = rx_match a s c @ rx_match b s c"
| "rx_match (Star a) s c =
     concat (map (\<lambda>(s', c'). if length s' < length s then rx_match (Star a) s' c' else [])
       (rx_match a s c)) @ [(s, c)]"
| "rx_match (Group k a) s c =
     map (\<lambda>(s', c'). (s', c'(k \<mapsto> take (length s - length s') s))) (rx_match a s c)"
  by pat_completeness auto
termination
  by (relation "measures [\<lambda>(r, s, c). size r, \<lambda>(r, s, c). length s]") auto

fun rx_search :: "rx \<Rightarrow> string \<Rightarrow> caps option" where
  "rx_search r [] = (case rx_match r [] Map.empty of [] \<Rightarrow> None | (s', c) # _ \<Rightarrow> Some c)"
| "rx_search r (x # xs) =
     (case rx_match r (x # xs) Map.empty of [] \<Rightarrow> rx_search r xs | (s', c) # _ \<Rightarrow> Some c)"

primrec ngroups :: "rx \<Rightarrow> nat" where
  "ngroups Eps = 0"
| "ngroups (In cs) = 0"
| "ngroups (NotIn cs) = 0"
| "ngroups (Cat a b) = ngroups a + ngroups b"
| "ngroups (Alt a b) = ngroups a + ngroups b"
| "ngroups (Star a) = ngroups a"
| "ngroups (Group k a) = Suc (ngroups a)"

text \<open>
  \<^verbatim>\<open>_search\<close>: \<^verbatim>\<open>match.groups()\<close> is the tuple of the groups 1, 2, ..., and
  \<^verbatim>\<open>group_index\<close> indexes that tuple from 0.
  \<^verbatim>\<open>
    match = re.search(regex, text)
    if match:
        return match.groups()[group_index]
    else:
        return None
  \<close>
\<close>

definition search :: "rx \<Rightarrow> string \<Rightarrow> nat \<Rightarrow> exn + string option" where
  "search regex text group_index =
     (case rx_search regex text of
        None \<Rightarrow> Inr None
      | Some c \<Rightarrow>
          if group_index < ngroups regex then Inr (c (Suc group_index)) else Inl IndexError)"

text \<open>The pattern syntax of the module.\<close>

fun rx_lit :: "string \<Rightarrow> rx" where
  "rx_lit [] = Eps"
| "rx_lit (c # s) = Cat (In [c]) (rx_lit s)"

fun rx_times :: "nat \<Rightarrow> rx \<Rightarrow> rx" where
  "rx_times 0 r = Eps"
| "rx_times (Suc n) r = Cat r (rx_times n r)"

fun rx_upto :: "nat \<Rightarrow> rx \<Rightarrow> rx" where
  "rx_upto 0 r = Eps"
| "rx_upto (Suc n) r = Alt (Cat r (rx_upto n r)) Eps"

fun rx_seq :: "rx list \<Rightarrow> rx" where
  "rx_seq [] = Eps"
| "rx_seq (r # rs) = Cat r (rx_seq rs)"

definition rx_plus :: "rx \<Rightarrow> rx" where
  "rx_plus r = Cat r (Star r)"

definition rx_opt :: "rx \<Rightarrow> rx" where
  "rx_opt r = Alt r Eps"

definition newline :: char where
  "newline = CHR 0x0A"

definition rx_dot :: rx where
  "rx_dot = NotIn [newline]"

definition rx_space :: rx where
  "rx_space = In whitespace"

definition digits :: string where
  "digits = ''0123456789''"

definition lower_hex_digits :: string where
  "lower_hex_digits = ''0123456789abcdef''"

definition hex_digits_any :: string where
  "hex_digits_any = ''0123456789abcdefABCDEF''"

text \<open>\<^verbatim>\<open>[0-9a-f]{2}(?::[0-9a-f]{2}){5}\<close> and \<^verbatim>\<open>[0-9a-fA-F]{2}(?:-[0-9a-fA-F]{2}){5}\<close>.\<close>

definition mac_colon :: rx where
  "mac_colon =
     Cat (rx_times 2 (In lower_hex_digits))
       (rx_times 5 (Cat (In '':'') (rx_times 2 (In lower_hex_digits))))"

definition mac_hyphen :: rx where
  "mac_hyphen =
     Cat (rx_times 2 (In hex_digits_any))
       (rx_times 5 (Cat (In ''-'') (rx_times 2 (In hex_digits_any))))"

section \<open>The host\<close>

text \<open>
  What the module asks of the operating system and of the Python library. The state of the
  system, of type \<open>'w\<close>, is passed through every call that can change it or depend on it
  (running a command changes the neighbour table that a later command prints).
  \<^item> \<open>win32\<close>: \<^verbatim>\<open>sys.platform == 'win32'\<close>; \<open>has_ipv6\<close>: \<^verbatim>\<open>socket.has_ipv6\<close>;
  \<^item> \<open>search_path\<close>: \<^verbatim>\<open>os.environ.get("PATH", os.defpath).split(os.pathsep)\<close>;
  \<^item> \<open>path_join\<close>, \<open>path_exists\<close>, \<open>access_fx\<close>, \<open>path_isdir\<close>: \<^verbatim>\<open>os.path.join\<close>,
    \<^verbatim>\<open>os.path.exists\<close>, \<^verbatim>\<open>os.access(_, os.F_OK | os.X_OK)\<close>, \<^verbatim>\<open>os.path.isdir\<close>;
  \<^item> \<open>shlex_split\<close>: \<^verbatim>\<open>shlex.split\<close>, of a string or of \<^verbatim>\<open>None\<close>;
  \<^item> \<open>run\<close>: \<^verbatim>\<open>Popen(cmd, stdout=PIPE, stderr=DEVNULL)\<close>, \<^verbatim>\<open>communicate()\<close> and
    \<^verbatim>\<open>poll()\<close>: an exception when the process cannot be started, else the return code and
    \<^verbatim>\<open>str(output)\<close>;
  \<^item> \<open>gethostbyname\<close>, \<open>gethostname\<close>: of \<^verbatim>\<open>socket\<close>;
  \<^item> \<open>warn\<close>: \<^verbatim>\<open>warnings.warn(message, RuntimeWarning)\<close>, which reports the warning and
    returns;
  \<^item> \<open>sendarp_available\<close>, \<open>inet_addr\<close>, \<open>send_arp\<close>: \<^verbatim>\<open>ctypes.windll.Iphlpapi.SendARP\<close> can
    be looked up; \<^verbatim>\<open>ctypes.windll.wsock32.inet_addr\<close>; the call of \<^verbatim>\<open>SendARP\<close>, giving its
    return value and the contents of the buffer;
  \<^item> \<open>ioctl_hwaddr\<close>: opening the datagram socket and \<^verbatim>\<open>fcntl.ioctl(s.fileno(), 0x8927, _)\<close>.
\<close>

record 'w host =
  win32 :: bool
  has_ipv6 :: bool
  search_path :: "string list"
  path_join :: "string \<Rightarrow> string \<Rightarrow> string"
  path_exists :: "'w \<Rightarrow> string \<Rightarrow> bool"
  access_fx :: "'w \<Rightarrow> string \<Rightarrow> bool"
  path_isdir :: "'w \<Rightarrow> string \<Rightarrow> bool"
  shlex_split :: "string option \<Rightarrow> exn + string list"
  run :: "string list \<Rightarrow> 'w \<Rightarrow> (exn + int \<times> string) \<times> 'w"
  gethostbyname :: "string \<Rightarrow> 'w \<Rightarrow> (exn + string) \<times> 'w"
  gethostname :: "'w \<Rightarrow> string"
  warn :: "string \<Rightarrow> 'w \<Rightarrow> 'w"
  sendarp_available :: bool
  inet_addr :: "string \<Rightarrow> exn + int"
  send_arp :: "int \<Rightarrow> 'w \<Rightarrow> (int \<times> string) \<times> 'w"
  ioctl_hwaddr :: "string \<Rightarrow> 'w \<Rightarrow> (exn + string) \<times> 'w"

type_synonym 'w probe = "string \<Rightarrow> 'w \<Rightarrow> (exn + raw option) \<times> 'w"

section \<open>Running a command\<close>

text \<open>
  \<^verbatim>\<open>_popen(command, args)\<close>. The executable is the first \<^verbatim>\<open>os.path.join(directory, command)\<close>
  along the search path that exists, is executable and is not a directory, else the bare
  command name. A return code other than 0 raises \<^verbatim>\<open>CalledProcessError\<close>. (The dictionary
  \<^verbatim>\<open>env\<close> with \<^verbatim>\<open>LC_ALL\<close> that the function builds is not passed to \<^verbatim>\<open>Popen\<close>.)
\<close>

definition find_executable :: "'w host \<Rightarrow> string \<Rightarrow> 'w \<Rightarrow> string" where
  "find_executable h command w =
     (let path = search_path h @ (if \<not> win32 h then [''/sbin'', ''/usr/sbin''] else [])
      in case List.find
             (\<lambda>executable. path_exists h w executable \<and> access_fx h w executable \<and>
                \<not> path_isdir h w executable)
             (map (\<lambda>directory. path_join h directory command) path) of
           Some executable \<Rightarrow> executable
         | None \<Rightarrow> command)"

definition popen :: "'w host \<Rightarrow> string \<Rightarrow> string option \<Rightarrow> 'w \<Rightarrow> (exn + string) \<times> 'w" where
  "popen h command args w =
     (let executable = find_executable h command w
      in case shlex_split h args of
           Inl e \<Rightarrow> (Inl e, w)
         | Inr words \<Rightarrow>
             (case run h (executable # words) w of
                (Inl e, w') \<Rightarrow> (Inl e, w')
              | (Inr (retcode, output), w') \<Rightarrow>
                  if retcode \<noteq> 0 then (Inl (CalledProcessError retcode), w')
                  else (Inr output, w')))"

text \<open>\<^verbatim>\<open>_search(regex, _popen(command, args), group_index)\<close>, as the probes call it.\<close>

definition search_output ::
  "'w host \<Rightarrow> rx \<Rightarrow> string \<Rightarrow> string \<Rightarrow> nat \<Rightarrow> 'w \<Rightarrow> (exn + string option) \<times> 'w" where
  "search_output h regex command args group_index w =
     (case popen h command (Some args) w of
        (Inl e, w') \<Rightarrow> (Inl e, w')
      | (Inr text, w') \<Rightarrow> (search regex text group_index, w'))"

definition candidate :: "(exn + string option) \<times> 'w \<Rightarrow> (exn + raw option) \<times> 'w" where
  "candidate r =
     (case r of (Inl e, w) \<Rightarrow> (Inl e, w) | (Inr found, w) \<Rightarrow> (Inr (map_option RStr found), w))"

section \<open>Numbers in text\<close>

text \<open>\<^verbatim>\<open>hex(n)\<close> and \<^verbatim>\<open>'%02x' % n\<close> of a natural number.\<close>

function hex_digits :: "nat \<Rightarrow> string" where
  "hex_digits n =
     (if n < 16 then [lower_hex_digits ! n]
      else hex_digits (n div 16) @ [lower_hex_digits ! (n mod 16)])"
  by pat_completeness auto
termination
  by (relation "measure id") auto

definition py_hex :: "nat \<Rightarrow> string" where
  "py_hex n = ''0x'' @ hex_digits n"

definition format_02x :: "nat \<Rightarrow> string" where
  "format_02x n = replicate (2 - length (hex_digits n)) CHR ''0'' @ hex_digits n"

text \<open>\<^verbatim>\<open>s.replace(old, new)\<close> for a non-empty string \<^verbatim>\<open>old\<close>.\<close>

function py_replace_str :: "string \<Rightarrow> string \<Rightarrow> string \<Rightarrow> string" where
  "py_replace_str old new [] = []"
| "py_replace_str old new (c # s) =
     (if old \<noteq> [] \<and> take (length old) (c # s) = old
      then new @ py_replace_str old new (drop (length old) (c # s))
      else c # py_replace_str old new s)"
  by pat_completeness auto
termination
  by (relation "measure (\<lambda>(old, new, s). length s)") auto

text \<open>
  \<^verbatim>\<open>int(x, 16)\<close>: surrounding whitespace, a sign and a \<^verbatim>\<open>0x\<close> prefix are accepted; what
  remains must be one or more hexadecimal digits, else \<^verbatim>\<open>ValueError\<close>.
\<close>

definition hex_value :: "char \<Rightarrow> nat option" where
  "hex_value c =
     map_of (zip hex_digits_any [0, 1, 2, 3, 4, 5, 6, 7, 8, 9, 10, 11, 12, 13, 14, 15,
       10, 11, 12, 13, 14, 15]) c"

fun hex_number :: "nat \<Rightarrow> string \<Rightarrow> nat option" where
  "hex_number acc [] = Some acc"
| "hex_number acc (c # s) =
     (case hex_value c of None \<Rightarrow> None | Some d \<Rightarrow> hex_number (16 * acc + d) s)"

definition py_int16 :: "string \<Rightarrow> exn + int" where
  "py_int16 x =
     (let t = py_strip x;
          negative = (t \<noteq> [] \<and> hd t = CHR ''-'');
          u = (if t \<noteq> [] \<and> (hd t = CHR ''-'' \<or> hd t = CHR ''+'') then tl t else t);
          v = (if take 2 (py_lower u) = ''0x'' then drop 2 u else u)
      in if v = [] then Inl ValueError
         else case hex_number 0 v of
                None \<Rightarrow> Inl ValueError
              | Some n \<Rightarrow> Inr (if negative then - int n else int n))"

text \<open>\<^verbatim>\<open>s.split()\<close>: the maximal runs of characters that are not whitespace.\<close>

fun split_ws :: "string \<Rightarrow> string \<Rightarrow> string list" where
  "split_ws [] cur = (if cur = [] then [] else [cur])"
| "split_ws (c # s) cur =
     (if is_space c then (if cur = [] then split_ws s [] else cur # split_ws s [])
      else split_ws s (cur @ [c]))"

definition py_split :: "string \<Rightarrow> string list" where
  "py_split s = split_ws s []"

text \<open>\<^verbatim>\<open>xs[i]\<close> for a Python integer \<^verbatim>\<open>i\<close>: negative indices count from the end.\<close>

definition py_index :: "'a list \<Rightarrow> int \<Rightarrow> exn + 'a" where
  "py_index xs i =
     (if 0 \<le> i \<and> i < int (length xs) then Inr (xs ! nat i)
      else if i < 0 \<and> - int (length xs) \<le> i then Inr (xs ! nat (int (length xs) + i))
      else Inl IndexError)"

text \<open>\<^verbatim>\<open>struct.pack('256s', s)\<close> and \<^verbatim>\<open>struct.unpack('BBBBBB', buffer)\<close>.\<close>

definition pack_256s :: "string \<Rightarrow> string" where
  "pack_256s s = take 256 s @ replicate (256 - length s) (CHR 0x00)"

definition unpack_6B :: "string \<Rightarrow> exn + nat list" where
  "unpack_6B buffer = (if length buffer \<noteq> 6 then Inl StructError else Inr (map of_char buffer))"

section \<open>The probes\<close>

text \<open>
  \<^verbatim>\<open>_windows_get_remote_mac(host)\<close>.
  \<^verbatim>\<open>
    try: SendARP = ctypes.windll.Iphlpapi.SendARP
    except Exception: raise NotImplementedError(...)
    if host == '127.0.0.1' or host.lower() == 'localhost':
        host = socket.gethostname()
    try:
        inetaddr = ctypes.windll.wsock32.inet_addr(host)
        if inetaddr in (0, -1): raise Exception
    except:
        hostip = socket.gethostbyname(host)
        inetaddr = ctypes.windll.wsock32.inet_addr(hostip)
    buffer = ctypes.c_buffer(6)
    if SendARP(inetaddr, 0, ctypes.byref(buffer), ctypes.byref(addlen)) != 0:
        raise WindowsError(...)
    macaddr = ''
    for intval in struct.unpack('BBBBBB', buffer):
        if intval > 15: replacestr = '0x'
        else: replacestr = 'x'
        macaddr = ''.join([macaddr, hex(intval).replace(replacestr, '')])
    return macaddr
  \<close>
\<close>

definition byte_text :: "nat \<Rightarrow> string" where
  "byte_text intval =
     (let replacestr = (if intval > 15 then ''0x'' else ''x'')
      in py_replace_str replacestr [] (py_hex intval))"

definition send_arp_text :: "'w host \<Rightarrow> int \<Rightarrow> 'w \<Rightarrow> (exn + raw option) \<times> 'w" where
  "send_arp_text h inetaddr w =
     (case send_arp h inetaddr w of
        ((status, buffer), w') \<Rightarrow>
          if status \<noteq> 0 then (Inl WindowsError, w')
          else (case unpack_6B buffer of
                  Inl e \<Rightarrow> (Inl e, w')
                | Inr intvals \<Rightarrow>
                    (Inr (Some (RStr (foldl (\<lambda>macaddr intval. macaddr @ byte_text intval) []
                       intvals))), w')))"

definition windows_get_remote_mac :: "'w host \<Rightarrow> 'w probe" where
  "windows_get_remote_mac h host0 w =
     (if \<not> sendarp_available h then (Inl NotImplementedError, w)
      else
        let host1 = (if host0 = ''127.0.0.1'' \<or> py_lower host0 = ''localhost''
                     then gethostname h w else host0)
        in case (case inet_addr h host1 of
                   Inl e \<Rightarrow> None
                 | Inr inetaddr \<Rightarrow> if inetaddr = 0 \<or> inetaddr = - 1 then None else Some inetaddr) of
             Some inetaddr \<Rightarrow> send_arp_text h inetaddr w
           | None \<Rightarrow>
               (case gethostbyname h host1 w of
                  (Inl e, w') \<Rightarrow> (Inl e, w')
                | (Inr hostip, w') \<Rightarrow>
                    (case inet_addr h hostip of
                       Inl e \<Rightarrow> (Inl e, w')
                     | Inr inetaddr \<Rightarrow> send_arp_text h inetaddr w')))"

text \<open>
  \<^verbatim>\<open>_windows_ipconfig_by_interface\<close>: the pattern is the escaped interface name followed by
  \<^verbatim>\<open>(?:\n?[^\n]*){1,8}Physical Address.+([0-9a-fA-F]{2}(?:-[0-9a-fA-F]{2}){5})\<close>.
\<close>

definition ipconfig_regex :: "string \<Rightarrow> rx" where
  "ipconfig_regex iface =
     (let line = Cat (rx_opt (In [newline])) (Star (NotIn [newline]))
      in rx_seq [rx_lit iface, Cat line (rx_upto 7 line), rx_lit ''Physical Address'',
           rx_plus rx_dot, Group 1 mac_hyphen])"

definition windows_ipconfig_by_interface :: "'w host \<Rightarrow> 'w probe" where
  "windows_ipconfig_by_interface h iface w =
     candidate (search_output h (ipconfig_regex iface) ''ipconfig'' ''/all'' 0 w)"

text \<open>
  \<^verbatim>\<open>_unix_fcntl_by_interface\<close>:
  \<^verbatim>\<open>
    info = fcntl.ioctl(s.fileno(), 0x8927, struct.pack('256s', interface[:15]))
    return ':'.join(['%02x' % ord(char) for char in info[18:24]])
  \<close>
\<close>

definition unix_fcntl_by_interface :: "'w host \<Rightarrow> 'w probe" where
  "unix_fcntl_by_interface h iface w =
     (case ioctl_hwaddr h (pack_256s (take 15 iface)) w of
        (Inl e, w') \<Rightarrow> (Inl e, w')
      | (Inr info, w') \<Rightarrow>
          (Inr (Some (RStr (py_join '':''
             (map (\<lambda>char. format_02x (of_char char)) (take 6 (drop 18 info)))))), w'))"

text \<open>
  \<^verbatim>\<open>_unix_ifconfig_by_interface\<close>: the pattern is the escaped interface name followed by
  \<^verbatim>\<open>.*(HWaddr|Ether) ([0-9a-f]{2}(?::[0-9a-f]{2}){5})\<close>, searched with the default
  \<^verbatim>\<open>group_index=0\<close>, in the output of \<^verbatim>\<open>ifconfig\<close> for each of four arguments in turn.
  \<^verbatim>\<open>
    for arg in ('', '-a', '-av', '-v'):
        mac = _search(..., _popen('ifconfig', arg))
        if mac: return mac
        else: continue
    return None
  \<close>
\<close>

definition ifconfig_regex :: "string \<Rightarrow> rx" where
  "ifconfig_regex iface =
     rx_seq [rx_lit iface, Star rx_dot, Group 1 (Alt (rx_lit ''HWaddr'') (rx_lit ''Ether'')),
       rx_lit '' '', Group 2 mac_colon]"

fun ifconfig_loop :: "'w host \<Rightarrow> string \<Rightarrow> string list \<Rightarrow> 'w \<Rightarrow> (exn + raw option) \<times> 'w" where
  "ifconfig_loop h iface [] w = (Inr None, w)"
| "ifconfig_loop h iface (arg # args) w =
     (case search_output h (ifconfig_regex iface) ''ifconfig'' arg 0 w of
        (Inl e, w') \<Rightarrow> (Inl e, w')
      | (Inr mac, w') \<Rightarrow>
          if mac \<noteq> None \<and> mac \<noteq> Some [] then (Inr (map_option RStr mac), w')
          else ifconfig_loop h iface args w')"

definition unix_ifconfig_by_interface :: "'w host \<Rightarrow> 'w probe" where
  "unix_ifconfig_by_interface h iface w = ifconfig_loop h iface [[], ''-a'', ''-av'', ''-v''] w"

text \<open>
  \<^verbatim>\<open>_unix_interface_ip_command\<close>: escaped interface name, then
  \<^verbatim>\<open>.*\n.*link/ether ([0-9a-f]{2}(?::[0-9a-f]{2}){5})\<close>, in the output of \<^verbatim>\<open>ip link\<close>.
\<close>

definition ip_link_regex :: "string \<Rightarrow> rx" where
  "ip_link_regex iface =
     rx_seq [rx_lit iface, Star rx_dot, In [newline], Star rx_dot, rx_lit ''link/ether '',
       Group 1 mac_colon]"

definition unix_interface_ip_command :: "'w host \<Rightarrow> 'w probe" where
  "unix_interface_ip_command h iface w =
     candidate (search_output h (ip_link_regex iface) ''ip'' ''link'' 0 w)"

text \<open>\<^verbatim>\<open>_unix_ip_ip_command\<close>: the body is \<^verbatim>\<open>pass\<close>.\<close>

definition unix_ip_ip_command :: "'w host \<Rightarrow> 'w probe" where
  "unix_ip_ip_command h addr w = (Inr None, w)"

text \<open>
  \<^verbatim>\<open>_unix_ip_arp_command\<close>: \<^verbatim>\<open>\(\<close>, the escaped address, then
  \<^verbatim>\<open>\)\s+at\s+([0-9a-f]{2}(?::[0-9a-f]{2}){5})\<close>, in the output of \<^verbatim>\<open>arp -an\<close>.
\<close>

definition arp_regex :: "string \<Rightarrow> rx" where
  "arp_regex addr =
     rx_seq [rx_lit ''('', rx_lit addr, rx_lit '')'', rx_plus rx_space, rx_lit ''at'',
       rx_plus rx_space, Group 1 mac_colon]"

definition unix_ip_arp_command :: "'w host \<Rightarrow> 'w probe" where
  "unix_ip_arp_command h addr w = candidate (search_output h (arp_regex addr) ''arp'' ''-an'' 0 w)"

text \<open>
  \<^verbatim>\<open>_unix_ip_cat_arp\<close>: the escaped address, then \<^verbatim>\<open>.*([0-9a-f]{2}(?::[0-9a-f]{2}){5})\<close>, in
  the output of \<^verbatim>\<open>cat /proc/net/arp\<close>.
\<close>

definition cat_arp_regex :: "string \<Rightarrow> rx" where
  "cat_arp_regex addr = rx_seq [rx_lit addr, Star rx_dot, Group 1 mac_colon]"

definition unix_ip_cat_arp :: "'w host \<Rightarrow> 'w probe" where
  "unix_ip_cat_arp h addr w =
     candidate (search_output h (cat_arp_regex addr) ''cat'' ''/proc/net/arp'' 0 w)"

text \<open>
  \<^verbatim>\<open>_unix_netstat_by_interface\<close>: the escaped interface name, then
  \<^verbatim>\<open>.*(HWaddr) ([0-9a-f]{2}(?::[0-9a-f]{2}){5})\<close>, with \<^verbatim>\<open>group_index=1\<close>, in the output of
  \<^verbatim>\<open>netstat -iae\<close>.
\<close>

definition netstat_regex :: "string \<Rightarrow> rx" where
  "netstat_regex iface =
     rx_seq [rx_lit iface, Star rx_dot, Group 1 (rx_lit ''HWaddr''), rx_lit '' '',
       Group 2 mac_colon]"

definition unix_netstat_by_interface :: "'w host \<Rightarrow> 'w probe" where
  "unix_netstat_by_interface h iface w =
     candidate (search_output h (netstat_regex iface) ''netstat'' ''-iae'' 1 w)"

text \<open>
  \<^verbatim>\<open>_unix_default_interface_ip_command\<close>: \<^verbatim>\<open>.*dev ([0-9a-z]*)\<close> in the output of
  \<^verbatim>\<open>ip route get 0.0.0.0\<close>.
\<close>

definition default_route_regex :: rx where
  "default_route_regex =
     rx_seq [Star rx_dot, rx_lit ''dev '', Group 1 (Star (In (digits @ lower_letters)))]"

definition unix_default_interface_ip_command :: "'w host \<Rightarrow> 'w \<Rightarrow> (exn + string option) \<times> 'w" where
  "unix_default_interface_ip_command h w =
     search_output h default_route_regex ''ip'' ''route get 0.0.0.0'' 0 w"

text \<open>
  \<^verbatim>\<open>_find_mac(command, args, hw_identifiers, get_index)\<close>. The loop variable \<^verbatim>\<open>line\<close> runs
  over \<^verbatim>\<open>proc\<close>, which is the string that \<^verbatim>\<open>_popen\<close> returned: it takes each character
  of the output in turn.
  \<^verbatim>\<open>
    proc = _popen(command, args)
    for line in proc:
        words = str(line).lower().rstrip().split()
        for i in range(len(words)):
            if words[i] in hw_identifiers:
                word = words[get_index(i)]
                mac = int(word.replace(':', ''), 16)
                if mac:
                    return mac
  \<close>
\<close>

definition words_of :: "char \<Rightarrow> string list" where
  "words_of line = py_split (py_rstrip (py_lower [line]))"

fun scan_words :: "string list \<Rightarrow> nat list \<Rightarrow> string list \<Rightarrow> (nat \<Rightarrow> int) \<Rightarrow> exn + int option" where
  "scan_words words [] hw_identifiers get_index = Inr None"
| "scan_words words (i # rest) hw_identifiers get_index =
     (if words ! i \<in> set hw_identifiers then
        (case py_index words (get_index i) of
           Inl e \<Rightarrow> Inl e
         | Inr word \<Rightarrow>
             (case py_int16 (py_replace CHR '':'' [] word) of
                Inl e \<Rightarrow> Inl e
              | Inr mac \<Rightarrow>
                  if mac \<noteq> 0 then Inr (Some mac)
                  else scan_words words rest hw_identifiers get_index))
      else scan_words words rest hw_identifiers get_index)"

fun scan_lines :: "string \<Rightarrow> string list \<Rightarrow> (nat \<Rightarrow> int) \<Rightarrow> exn + int option" where
  "scan_lines [] hw_identifiers get_index = Inr None"
| "scan_lines (line # proc) hw_identifiers get_index =
     (let words = words_of line
      in case scan_words words [0..<length words] hw_identifiers get_index of
           Inl e \<Rightarrow> Inl e
         | Inr (Some mac) \<Rightarrow> Inr (Some mac)
         | Inr None \<Rightarrow> scan_lines proc hw_identifiers get_index)"

definition find_mac ::
  "'w host \<Rightarrow> string \<Rightarrow> string \<Rightarrow> string list \<Rightarrow> (nat \<Rightarrow> int) \<Rightarrow> 'w \<Rightarrow> (exn + int option) \<times> 'w" where
  "find_mac h command args hw_identifiers get_index w =
     (case popen h command (Some args) w of
        (Inl e, w') \<Rightarrow> (Inl e, w')
      | (Inr proc, w') \<Rightarrow> (scan_lines proc hw_identifiers get_index, w'))"

text \<open>\<^verbatim>\<open>_unix_lanscan_interface\<close>: \<^verbatim>\<open>_find_mac('lanscan', '-ai', [interface], lambda i: 0)\<close>.\<close>

definition unix_lanscan_interface :: "'w host \<Rightarrow> 'w probe" where
  "unix_lanscan_interface h iface w =
     (case find_mac h ''lanscan'' ''-ai'' [iface] (\<lambda>i. 0) w of
        (Inl e, w') \<Rightarrow> (Inl e, w')
      | (Inr mac, w') \<Rightarrow> (Inr (map_option RInt mac), w'))"

section \<open>The resolution engine\<close>

text \<open>The arguments of \<^verbatim>\<open>get_mac_address\<close>; \<open>None\<close> is Python's \<^verbatim>\<open>None\<close>.\<close>

record request =
  interface :: "string option"
  ip :: "string option"
  ip6 :: "string option"
  hostname :: "string option"
  network_request :: bool

text \<open>\<^verbatim>\<open>"%s" % x\<close> for a string or \<^verbatim>\<open>None\<close>.\<close>

definition format_s :: "string option \<Rightarrow> string" where
  "format_s x = (case x of None \<Rightarrow> ''None'' | Some s \<Rightarrow> s)"

text \<open>
  Lines 53--54: \<^verbatim>\<open>if hostname is not None: ip = socket.gethostbyname(hostname)\<close>. The call
  stands outside every \<^verbatim>\<open>try\<close>.
\<close>

definition resolve_hostname :: "'w host \<Rightarrow> request \<Rightarrow> 'w \<Rightarrow> (exn + string option) \<times> 'w" where
  "resolve_hostname h a w =
     (case hostname a of
        None \<Rightarrow> (Inr (ip a), w)
      | Some name \<Rightarrow>
          (case gethostbyname h name w of
             (Inl e, w') \<Rightarrow> (Inl e, w')
           | (Inr addr, w') \<Rightarrow> (Inr (Some addr), w')))"

text \<open>
  Lines 59--66, the body of \<^verbatim>\<open>if network_request:\<close>. In
  \<^verbatim>\<open>_popen("ping", "-n 1 %s" % ip if ip is not None else ip6)\<close> the conditional expression
  binds weaker than \<^verbatim>\<open>%\<close>: without an IPv4 address the argument string is \<^verbatim>\<open>ip6\<close> itself.
  \<^verbatim>\<open>
    if sys.platform == 'win32':
        _popen("ping", "-n 1 %s" % ip if ip is not None else ip6)
    else:
        if ip is not None: _popen("ping", "-c 1 %s" % ip)
        else: _popen("ping6", "-c 1 %s" % ip6)
  \<close>
\<close>

definition ping :: "'w host \<Rightarrow> string option \<Rightarrow> string option \<Rightarrow> 'w \<Rightarrow> (exn + string) \<times> 'w" where
  "ping h ip4 addr6 w =
     (if win32 h then
        popen h ''ping'' (case ip4 of Some addr \<Rightarrow> Some (''-n 1 '' @ addr) | None \<Rightarrow> addr6) w
      else
        (case ip4 of
           Some addr \<Rightarrow> popen h ''ping'' (Some (''-c 1 '' @ addr)) w
         | None \<Rightarrow> popen h ''ping6'' (Some (''-c 1 '' @ format_s addr6)) w))"

text \<open>The probe lists of lines 72--75 and 103--108.\<close>

definition remote_funcs :: "'w host \<Rightarrow> 'w probe list" where
  "remote_funcs h =
     (if win32 h then [windows_get_remote_mac h]
      else [unix_ip_arp_command h, unix_ip_cat_arp h, unix_ip_ip_command h])"

definition interface_funcs :: "'w host \<Rightarrow> 'w probe list" where
  "interface_funcs h =
     (if win32 h then [windows_ipconfig_by_interface h]
      else [unix_ifconfig_by_interface h, unix_interface_ip_command h,
            unix_netstat_by_interface h, unix_fcntl_by_interface h, unix_lanscan_interface h])"

text \<open>Lines 89--99: the argument of the local probes.\<close>

definition local_interface :: "'w host \<Rightarrow> request \<Rightarrow> 'w \<Rightarrow> (exn + string) \<times> 'w" where
  "local_interface h a w =
     (case interface a of
        Some name \<Rightarrow> (Inr name, w)
      | None \<Rightarrow>
          if win32 h then (Inr ''Ethernet 1'', w)
          else (case unix_default_interface_ip_command h w of
                  (Inl e, w') \<Rightarrow> (Inl e, w')
                | (Inr None, w') \<Rightarrow> (Inr ''eth0'', w')
                | (Inr (Some name), w') \<Rightarrow> (Inr name, w')))"

text \<open>
  Lines 113--123, the probe loop:
  \<^verbatim>\<open>
    for func in funcs:
        try:
            mac = func(arg)
        except Exception as ex:
            ...
            continue
        if mac is not None:
            break
  \<close>
\<close>

fun try_funcs :: "'w probe list \<Rightarrow> string \<Rightarrow> 'w \<Rightarrow> raw option \<times> 'w" where
  "try_funcs [] arg w = (None, w)"
| "try_funcs (func # funcs) arg w =
     (case func arg w of
        (Inl ex, w') \<Rightarrow> try_funcs funcs arg w'
      | (Inr None, w') \<Rightarrow> try_funcs funcs arg w'
      | (Inr (Some mac), w') \<Rightarrow> (Some mac, w'))"

text \<open>Lines 126--141: the candidate, if any, is normalised and returned.\<close>

definition finish :: "raw option \<times> 'w \<Rightarrow> (exn + string option) \<times> 'w" where
  "finish r = (case r of (None, w) \<Rightarrow> (Inr None, w) | (Some mac, w) \<Rightarrow> (Inr (normalize mac), w))"

definition ipv6_warning :: string where
  "ipv6_warning =
     ''Cannot get the MAC address of a IPv6 host: IPv6 is not supported on this system''"

definition get_mac_address :: "'w host \<Rightarrow> request \<Rightarrow> 'w \<Rightarrow> (exn + string option) \<times> 'w" where
  "get_mac_address h a w0 =
     (case resolve_hostname h a w0 of
        (Inl e, w1) \<Rightarrow> (Inl e, w1)
      | (Inr ip4, w1) \<Rightarrow>
          (case (if network_request a then ping h ip4 (ip6 a) w1 else (Inr [], w1)) of
             (Inl e, w2) \<Rightarrow> (Inl e, w2)
           | (Inr _, w2) \<Rightarrow>
               (case ip4 of
                  Some addr \<Rightarrow> finish (try_funcs (remote_funcs h) addr w2)
                | None \<Rightarrow>
                    (case ip6 a of
                       Some addr6 \<Rightarrow>
                         if \<not> has_ipv6 h then (Inr None, warn h ipv6_warning w2)
                         else finish (try_funcs [] addr6 w2)
                     | None \<Rightarrow>
                         (case local_interface h a w2 of
                            (Inl e, w3) \<Rightarrow> (Inl e, w3)
                          | (Inr arg, w3) \<Rightarrow> finish (try_funcs (interface_funcs h) arg w3))))))"

section \<open>The canonical form of the specification\<close>

definition is_lower_hex :: "char \<Rightarrow> bool" where
  "is_lower_hex c = (c \<in> set lower_hex_digits)"

definition is_hex :: "char \<Rightarrow> bool" where
  "is_hex c = (c \<in> set hex_digits_any)"

text \<open>\<open>octet_groups n s\<close>: \<open>s\<close> is \<open>n\<close> groups of two lowercase hexadecimal digits joined
  by colons.\<close>

fun octet_groups :: "nat \<Rightarrow> string \<Rightarrow> bool" where
  "octet_groups 0 s = False"
| "octet_groups (Suc 0) s = (case s of [a, b] \<Rightarrow> is_lower_hex a \<and> is_lower_hex b | _ \<Rightarrow> False)"
| "octet_groups (Suc (Suc n)) s =
     (case s of a # b # c # r \<Rightarrow>
        is_lower_hex a \<and> is_lower_hex b \<and> c = CHR '':'' \<and> octet_groups (Suc n) r
      | _ \<Rightarrow> False)"

definition canonical :: "string \<Rightarrow> bool" where
  "canonical s = (octet_groups 6 s \<and> length s = 17)"

text \<open>The specification's colon insertion: a colon after every two characters that are
  followed by more.\<close>

fun colon_every_two :: "string \<Rightarrow> string" where
  "colon_every_two (a # b # c # s) = a # b # CHR '':'' # colon_every_two (c # s)"
| "colon_every_two s = s"

text \<open>The specification's condition for the colon insertion: no colons, and exactly
  twelve hexadecimal characters.\<close>

definition spec_insert_condition :: "string \<Rightarrow> bool" where
  "spec_insert_condition mac =
     (CHR '':'' \<notin> set mac \<and> length mac = 12 \<and> list_all is_hex mac)"

text \<open>The characters of a canonical address.\<close>

definition plain :: "char \<Rightarrow> bool" where
  "plain c = (is_lower_hex c \<or> c = CHR '':'')"

section \<open>What a pattern can match and capture\<close>

text \<open>
  \<open>lang r\<close> is the set of texts that \<open>r\<close> matches, and \<open>caps_in r k\<close> the set of texts
  that group \<open>k\<close> of \<open>r\<close> can capture. They are used to state what the matcher can return.
\<close>

primrec lang :: "rx \<Rightarrow> string set" where
  "lang Eps = {[]}"
| "lang (In cs) = {[x] |x. x \<in> set cs}"
| "lang (NotIn cs) = {[x] |x. x \<notin> set cs}"
| "lang (Cat a b) = {u @ v |u v. u \<in> lang a \<and> v \<in> lang b}"
| "lang (Alt a b) = lang a \<union> lang b"
| "lang (Star a) = {concat ws |ws. set ws \<subseteq> lang a}"
| "lang (Group k a) = lang a"

primrec caps_in :: "rx \<Rightarrow> nat \<Rightarrow> string set" where
  "caps_in Eps k = {}"
| "caps_in (In cs) k = {}"
| "caps_in (NotIn cs) k = {}"
| "caps_in (Cat a b) k = caps_in a k \<union> caps_in b k"
| "caps_in (Alt a b) k = caps_in a k \<union> caps_in b k"
| "caps_in (Star a) k = caps_in a k"
| "caps_in (Group j a) k = (if j = k then lang a else {}) \<union> caps_in a k"

text \<open>A raw candidate is harmless when its normalisation is nothing or a canonical
  address.\<close>

definition harmless :: "raw \<Rightarrow> bool" where
  "harmless m = (case normalize m of None \<Rightarrow> True | Some mac \<Rightarrow> canonical mac)"

text \<open>The guard of the code (twelve characters) and the condition of the specification (no
  colons and twelve hexadecimal characters) agree on a raw candidate.\<close>

definition insert_agrees :: "raw \<Rightarrow> bool" where
  "insert_agrees m = (insert_applies (cleaned m) = spec_insert_condition (cleaned m))"

section \<open>A host to run the module on\<close>

text \<open>
  A Unix-like host without IPv6 whose state is the list of what was asked of it so far. No
  executable is found along the search path, so commands run under their bare names;
  arguments are split at whitespace; the ARP call and the ioctl are not available. The
  table \<open>commands\<close> gives the return code and the output of each command line, and
  \<open>resolver\<close> the answer of the name service.
\<close>

datatype event = Exec "string list" | Lookup string | Warning string | Ioctl string

definition unix_box ::
  "(string list \<Rightarrow> int \<times> string) \<Rightarrow> (string \<Rightarrow> exn + string) \<Rightarrow> event list host" where
  "unix_box commands resolver =
     \<lparr> win32 = False,
       has_ipv6 = False,
       search_path = [''/usr/bin''],
       path_join = (\<lambda>directory name. directory @ ''/'' @ name),
       path_exists = (\<lambda>w p. False),
       access_fx = (\<lambda>w p. False),
       path_isdir = (\<lambda>w p. False),
       shlex_split = (\<lambda>args. case args of None \<Rightarrow> Inl ValueError | Some s \<Rightarrow> Inr (py_split s)),
       run = (\<lambda>cmd w. (Inr (commands cmd), w @ [Exec cmd])),
       gethostbyname = (\<lambda>name w. (resolver name, w @ [Lookup name])),
       gethostname = (\<lambda>w. ''box''),
       warn = (\<lambda>message w. w @ [Warning message]),
       sendarp_available = False,
       inet_addr = (\<lambda>s. Inl OSError),
       send_arp = (\<lambda>inetaddr w. ((1, []), w)),
       ioctl_hwaddr = (\<lambda>request w. (Inl OSError, w @ [Ioctl request])) \<rparr>"

text \<open>Every command fails with the given return code.\<close>

definition failing :: "int \<Rightarrow> string list \<Rightarrow> int \<times> string" where
  "failing code cmd = (code, [])"

text \<open>The name service knows no name.\<close>

definition no_names :: "string \<Rightarrow> exn + string" where
  "no_names name = Inl HostLookupError"

text \<open>A host on which \<^verbatim>\<open>arp -an\<close> lists one neighbour.\<close>

definition arp_table :: "string list \<Rightarrow> int \<times> string" where
  "arp_table cmd =
     (if cmd = [''arp'', ''-an''] then (0, ''? (10.0.0.1) at 00:1a:2b:3c:4d:5e [ether] on eth0'')
      else (1, []))"

text \<open>A host on which \<^verbatim>\<open>lanscan -ai\<close> prints a line for the interface \<open>lan0\<close>.\<close>

definition lanscan_table :: "string list \<Rightarrow> int \<times> string" where
  "lanscan_table cmd =
     (if cmd = [''lanscan'', ''-ai''] then (0, ''0x001A4B0C1D2E lan0 snap0'') else (1, []))"

text \<open>
  A Windows host whose state is again the list of what was asked of it. \<^verbatim>\<open>SendARP\<close> is
  available and fills the buffer with the six bytes \<open>00 1a 2b 3c 4d 5e\<close>; no command can
  be started.
\<close>

definition windows_box :: "event list host" where
  "windows_box =
     \<lparr> win32 = True,
       has_ipv6 = False,
       search_path = [],
       path_join = (\<lambda>directory name. directory @ name),
       path_exists = (\<lambda>w p. False),
       access_fx = (\<lambda>w p. False),
       path_isdir = (\<lambda>w p. False),
       shlex_split = (\<lambda>args. case args of None \<Rightarrow> Inl ValueError | Some s \<Rightarrow> Inr (py_split s)),
       run = (\<lambda>cmd w. (Inl OSError, w @ [Exec cmd])),
       gethostbyname = (\<lambda>name w. (Inl HostLookupError, w @ [Lookup name])),
       gethostname = (\<lambda>w. ''box''),
       warn = (\<lambda>message w. w @ [Warning message]),
       sendarp_available = True,
       inet_addr = (\<lambda>s. Inr 16777226),
       send_arp = (\<lambda>inetaddr w.
         ((0, [CHR 0x00, CHR 0x1A, CHR 0x2B, CHR 0x3C, CHR 0x4D, CHR 0x5E]), w @ [Lookup ''SendARP''])),
       ioctl_hwaddr = (\<lambda>request w. (Inl OSError, w)) \<rparr>"

text \<open>Requests with one selector set.\<close>

definition no_selector :: request where
  "no_selector =
     \<lparr> interface = None, ip = None, ip6 = None, hostname = None, network_request = True \<rparr>"

text \<open>Three probes that record their call in the state: the first raises, the second
  returns a candidate, the third would return another one.\<close>

definition probe_raises :: "string list probe" where
  "probe_raises arg w = (Inl OSError, w @ [''first''])"

definition probe_finds :: "string list probe" where
  "probe_finds arg w = (Inr (Some (RStr ''AA-BB-CC-DD-EE-FF'')), w @ [''second''])"

definition probe_other :: "string list probe" where
  "probe_other arg w = (Inr (Some (RStr ''00:00:00:00:00:01'')), w @ [''third''])"

section \<open>Facts about the string primitives\<close>

lemma lower_char_hex: "is_hex c \<Longrightarrow> is_lower_hex (lower_char c)"
  unfolding is_hex_def hex_digits_any_def
  apply (simp only: set_simps insert_iff empty_iff)
  apply (elim disjE)
  apply (simp_all add: lower_char_def upper_letters_def lower_letters_def is_lower_hex_def
      lower_hex_digits_def)
  done

lemma plain_facts:
  "plain c \<Longrightarrow> lower_char c = c \<and> \<not> is_space c \<and> c \<noteq> CHR ''-'' \<and> c \<noteq> CHR '' ''"
  unfolding plain_def is_lower_hex_def lower_hex_digits_def
  apply (simp only: set_simps insert_iff empty_iff)
  apply (elim disjE)
  apply (simp_all add: lower_char_def upper_letters_def lower_letters_def is_space_def whitespace_def)
  done

lemma py_lower_plain: "list_all plain s \<Longrightarrow> py_lower s = s"
  by (induction s) (simp_all add: py_lower_def plain_facts)

lemma py_lower_length: "length (py_lower s) = length s"
  by (simp add: py_lower_def)

lemma py_lower_hex: "list_all is_hex s \<Longrightarrow> list_all is_lower_hex (py_lower s)"
  by (induction s) (simp_all add: py_lower_def lower_char_hex)

lemma dropWhile_none: "list_all (\<lambda>c. \<not> P c) s \<Longrightarrow> dropWhile P s = s"
  by (cases s) simp_all

lemma py_strip_plain: "list_all plain s \<Longrightarrow> py_strip s = s"
proof -
  assume a: "list_all plain s"
  then have n: "list_all (\<lambda>c. \<not> is_space c) s"
    by (induction s) (simp_all add: plain_facts)
  then have "list_all (\<lambda>c. \<not> is_space c) (rev s)"
    by (simp add: list_all_iff)
  with n show ?thesis
    by (simp add: py_strip_def py_lstrip_def py_rstrip_def dropWhile_none)
qed

lemma py_replace_absent: "old \<notin> set s \<Longrightarrow> py_replace old new s = s"
  by (induction s) (auto simp: py_replace_def)

lemma plain_no_hyphen: "list_all plain s \<Longrightarrow> CHR ''-'' \<notin> set s \<and> CHR '' '' \<notin> set s"
proof (induction s)
  case Nil
  then show ?case by simp
next
  case (Cons c s)
  then have "plain c" by simp
  then have "c \<noteq> CHR ''-'' \<and> c \<noteq> CHR '' ''" by (simp add: plain_facts)
  with Cons show ?case by auto
qed

lemma cleaned_plain: "list_all plain s \<Longrightarrow> cleaned (RStr s) = s"
  by (simp add: cleaned_def py_lower_plain py_strip_plain py_replace_absent plain_no_hyphen)

lemma py_join_Cons: "py_join sep (p # ps) = (if ps = [] then p else p @ sep @ py_join sep ps)"
  by (cases ps) simp_all

lemma pairs_of_Nil: "pairs_of s = [] \<longleftrightarrow> s = []"
  by (cases s rule: pairs_of.cases) simp_all

lemma add_colons_eq: "add_colons s = colon_every_two s"
  unfolding add_colons_def
  by (induction s rule: colon_every_two.induct) (simp_all add: py_join_Cons pairs_of_Nil)

lemma octet_groups_plain: "octet_groups n s \<Longrightarrow> list_all plain s"
  by (induction n s rule: octet_groups.induct) (auto simp: plain_def split: list.splits)

lemma octet_groups_length: "octet_groups n s \<Longrightarrow> Suc (length s) = 3 * n"
  by (induction n s rule: octet_groups.induct) (auto split: list.splits)

lemma twelve_chars:
  assumes "length s = 12"
  obtains a b c d e f g h i j k l where "s = [a, b, c, d, e, f, g, h, i, j, k, l]"
proof -
  from assms obtain a b c d e f g h i j k l where "s = [a, b, c, d, e, f, g, h, i, j, k, l]"
    by (auto simp: numeral_eq_Suc length_Suc_conv)
  then show ?thesis using that by blast
qed

lemma colon_every_two_canonical:
  "length s = 12 \<Longrightarrow> list_all is_lower_hex s \<Longrightarrow> canonical (colon_every_two s)"
  by (erule twelve_chars) (simp add: canonical_def numeral_eq_Suc)

lemma colon_every_two_length: "length s = 12 \<Longrightarrow> length (colon_every_two s) = 17"
  by (erule twelve_chars) simp

lemma lower_hex_plain: "list_all is_lower_hex s \<Longrightarrow> list_all plain s"
  by (induction s) (simp_all add: plain_def)

lemma normalize_cases:
  "normalize m =
     (if length (cleaned m) = 12 then Some (colon_every_two (cleaned m))
      else if length (cleaned m) = 17 then Some (cleaned m) else None)"
  by (simp add: normalize_def fix_no_colons_def insert_applies_def require_17_def
      add_colons_eq colon_every_two_length)

lemma lang_Star_Nil: "[] \<in> lang (Star a)"
proof -
  have "[] = concat ([] :: string list) \<and> set ([] :: string list) \<subseteq> lang a" by simp
  then show ?thesis unfolding lang.simps by blast
qed

lemma lang_Star_Cons:
  assumes "u \<in> lang a" and "v \<in> lang (Star a)"
  shows "u @ v \<in> lang (Star a)"
proof -
  from assms(2) obtain ws where ws: "v = concat ws" "set ws \<subseteq> lang a" by auto
  with assms(1) have "u @ v = concat (u # ws) \<and> set (u # ws) \<subseteq> lang a" by simp
  then show ?thesis unfolding lang.simps by blast
qed

lemma lang_Cat: "u \<in> lang a \<Longrightarrow> v \<in> lang b \<Longrightarrow> u @ v \<in> lang (Cat a b)"
  by auto

declare rx_match.simps(6) [simp del]

lemma rx_match_Star_cases:
  assumes "(s', c') \<in> set (rx_match (Star a) s c)"
  obtains (stop) "s' = s" "c' = c"
  | (step) s1 c1 where "(s1, c1) \<in> set (rx_match a s c)" "length s1 < length s"
      "(s', c') \<in> set (rx_match (Star a) s1 c1)"
proof -
  let ?f = "\<lambda>(s', c'). if length s' < length s then rx_match (Star a) s' c' else []"
  from assms have "(s', c') \<in> set (concat (map ?f (rx_match a s c)) @ [(s, c)])"
    by (subst (asm) rx_match.simps(6)) assumption
  then have "(s', c') = (s, c) \<or> (\<exists>p \<in> set (rx_match a s c). (s', c') \<in> set (?f p))"
    by (simp only: set_append set_concat set_map Un_iff UN_iff bex_simps list.set insert_iff
        empty_iff image_iff) blast
  then show thesis
  proof
    assume "(s', c') = (s, c)"
    then show thesis using stop by simp
  next
    assume "\<exists>p \<in> set (rx_match a s c). (s', c') \<in> set (?f p)"
    then obtain p where p: "p \<in> set (rx_match a s c)" "(s', c') \<in> set (?f p)" by blast
    obtain s1 c1 where p1: "p = (s1, c1)" by (cases p)
    have l: "length s1 < length s"
    proof (rule ccontr)
      assume "\<not> length s1 < length s"
      then have "?f p = []" using p1 by (simp only: prod.case if_False)
      with p(2) show False by simp
    qed
    then have "?f p = rx_match (Star a) s1 c1" using p1 by (simp only: prod.case if_True)
    with p(2) have "(s', c') \<in> set (rx_match (Star a) s1 c1)" by (simp only:)
    with p(1) p1 l show thesis using step [of s1 c1] by blast
  qed
qed

lemma prefix_witness: "w \<in> L \<Longrightarrow> s = w @ s' \<Longrightarrow> \<exists>w \<in> L. s = w @ s'"
  by (rule bexI)

lemma rx_match_lang:
  "(s', c') \<in> set (rx_match r s c) \<Longrightarrow> \<exists>w \<in> lang r. s = w @ s'"
proof (induction r s c arbitrary: s' c' rule: rx_match.induct)
  case (1 s c)
  then show ?case by simp
next
  case (2 cs s c)
  then show ?case by (cases s) (simp_all split: if_splits)
next
  case (3 cs s c)
  then show ?case by (cases s) (simp_all split: if_splits)
next
  case (4 a b s c)
  from "4.prems" obtain s1 c1 where
    m1: "(s1, c1) \<in> set (rx_match a s c)" and m2: "(s', c') \<in> set (rx_match b s1 c1)"
    by auto
  from "4.IH"(1) [OF m1] obtain u where u: "u \<in> lang a" "s = u @ s1" by blast
  have "\<exists>w \<in> lang b. s1 = w @ s'" by (rule "4.IH"(2) [OF m1 refl m2])
  then obtain v where v: "v \<in> lang b" "s1 = v @ s'" by blast
  have A: "u @ v \<in> lang (Cat a b)" using u(1) v(1) by (rule lang_Cat)
  have B: "s = (u @ v) @ s'" using u(2) v(2) by simp
  from A B show ?case by (rule prefix_witness)
next
  case (5 a b s c)
  from "5.prems" have "(s', c') \<in> set (rx_match a s c) \<or> (s', c') \<in> set (rx_match b s c)"
    by simp
  then show ?case
  proof
    assume "(s', c') \<in> set (rx_match a s c)"
    from "5.IH"(1) [OF this] obtain w where "w \<in> lang a" "s = w @ s'" by blast
    then have "w \<in> lang (Alt a b)" "s = w @ s'" by simp_all
    then show ?thesis by (rule prefix_witness)
  next
    assume "(s', c') \<in> set (rx_match b s c)"
    from "5.IH"(2) [OF this] obtain w where "w \<in> lang b" "s = w @ s'" by blast
    then have "w \<in> lang (Alt a b)" "s = w @ s'" by simp_all
    then show ?thesis by (rule prefix_witness)
  qed
next
  case (6 a s c)
  from "6.prems" show ?case
  proof (cases rule: rx_match_Star_cases)
    case stop
    have "s = [] @ s'" using stop(1) by simp
    with lang_Star_Nil show ?thesis by (rule prefix_witness)
  next
    case (step s1 c1)
    from "6.IH"(1) [OF step(1)] obtain u where u: "u \<in> lang a" "s = u @ s1" by blast
    have "\<exists>w \<in> lang (Star a). s1 = w @ s'"
      by (rule "6.IH"(2) [OF step(1) refl step(2) step(3)])
    then obtain v where v: "v \<in> lang (Star a)" "s1 = v @ s'" by blast
    have A: "u @ v \<in> lang (Star a)" using u(1) v(1) by (rule lang_Star_Cons)
    have B: "s = (u @ v) @ s'" using u(2) v(2) by simp
    from A B show ?thesis by (rule prefix_witness)
  qed
next
  case (7 k a s c)
  from "7.prems" obtain c1 where "(s', c1) \<in> set (rx_match a s c)" by auto
  from "7.IH" [OF this] show ?case by simp
qed

lemma rx_match_take:
  assumes "(s', c') \<in> set (rx_match r s c)"
  shows "take (length s - length s') s \<in> lang r"
proof -
  from rx_match_lang [OF assms] obtain w where "w \<in> lang r" "s = w @ s'" by blast
  then show ?thesis by simp
qed

lemma rx_match_caps:
  "(s', c') \<in> set (rx_match r s c) \<Longrightarrow> c' k = c k \<or> (\<exists>w \<in> caps_in r k. c' k = Some w)"
proof (induction r s c arbitrary: s' c' rule: rx_match.induct)
  case (1 s c)
  then show ?case by simp
next
  case (2 cs s c)
  then show ?case by (cases s) (simp_all split: if_splits)
next
  case (3 cs s c)
  then show ?case by (cases s) (simp_all split: if_splits)
next
  case (4 a b s c)
  from "4.prems" obtain s1 c1 where
    m1: "(s1, c1) \<in> set (rx_match a s c)" and m2: "(s', c') \<in> set (rx_match b s1 c1)"
    by auto
  from "4.IH"(1) [OF m1] have "c1 k = c k \<or> (\<exists>w \<in> caps_in a k. c1 k = Some w)" .
  moreover have "c' k = c1 k \<or> (\<exists>w \<in> caps_in b k. c' k = Some w)"
    by (rule "4.IH"(2) [OF m1 refl m2])
  ultimately show ?case by auto
next
  case (5 a b s c)
  from "5.prems" have "(s', c') \<in> set (rx_match a s c) \<or> (s', c') \<in> set (rx_match b s c)"
    by simp
  then show ?case
  proof
    assume "(s', c') \<in> set (rx_match a s c)"
    from "5.IH"(1) [OF this] show ?thesis by auto
  next
    assume "(s', c') \<in> set (rx_match b s c)"
    from "5.IH"(2) [OF this] show ?thesis by auto
  qed
next
  case (6 a s c)
  from "6.prems" show ?case
  proof (cases rule: rx_match_Star_cases)
    case stop
    then show ?thesis by simp
  next
    case (step s1 c1)
    from "6.IH"(1) [OF step(1)] have "c1 k = c k \<or> (\<exists>w \<in> caps_in a k. c1 k = Some w)" .
    moreover have "c' k = c1 k \<or> (\<exists>w \<in> caps_in (Star a) k. c' k = Some w)"
      by (rule "6.IH"(2) [OF step(1) refl step(2) step(3)])
    ultimately show ?thesis by auto
  qed
next
  case (7 j a s c)
  from "7.prems" obtain c1 where
    m: "(s', c1) \<in> set (rx_match a s c)" and c': "c' = c1(j \<mapsto> take (length s - length s') s)"
    by auto
  from "7.IH" [OF m] have ih: "c1 k = c k \<or> (\<exists>w \<in> caps_in a k. c1 k = Some w)" .
  show ?case
  proof (cases "j = k")
    case True
    then show ?thesis using c' rx_match_take [OF m] by simp
  next
    case False
    then show ?thesis using c' ih by auto
  qed
qed

lemma rx_search_match:
  "rx_search r s = Some c \<Longrightarrow> \<exists>t s'. (s', c) \<in> set (rx_match r t Map.empty)"
proof (induction s)
  case Nil
  then obtain s' rest where "rx_match r [] Map.empty = (s', c) # rest"
    by (auto split: list.splits)
  then have "(s', c) \<in> set (rx_match r [] Map.empty)" by simp
  then show ?case by blast
next
  case (Cons x xs)
  show ?case
  proof (cases "rx_match r (x # xs) Map.empty")
    case Nil
    then show ?thesis using Cons by simp
  next
    case (Cons p rest)
    then have "p = (fst p, c)" using Cons.prems by (cases p) simp
    then have "(fst p, c) \<in> set (rx_match r (x # xs) Map.empty)" using Cons by simp
    then show ?thesis by blast
  qed
qed

lemma rx_search_caps:
  assumes "rx_search r s = Some c"
  shows "c k = None \<or> (\<exists>w \<in> caps_in r k. c k = Some w)"
proof -
  from rx_search_match [OF assms] obtain t s' where "(s', c) \<in> set (rx_match r t Map.empty)"
    by blast
  from rx_match_caps [OF this, of k] show ?thesis by simp
qed


section \<open>What the patterns of the probes capture\<close>

lemma caps_in_lit: "caps_in (rx_lit s) k = {}"
  by (induction s) simp_all

lemma caps_in_times: "caps_in (rx_times n r) k = (if n = 0 then {} else caps_in r k)"
  by (induction n) simp_all

lemma caps_in_upto: "caps_in (rx_upto n r) k = (if n = 0 then {} else caps_in r k)"
  by (induction n) simp_all

lemma caps_in_mac_colon: "caps_in mac_colon k = {}"
  by (simp add: mac_colon_def caps_in_times)

lemma caps_in_mac_hyphen: "caps_in mac_hyphen k = {}"
  by (simp add: mac_hyphen_def caps_in_times)

lemma lang_lit: "lang (rx_lit s) = {s}"
  by (induction s) auto

lemma lang_pair:
  "u \<in> lang (rx_times 2 (In cs)) \<Longrightarrow> \<exists>a b. u = [a, b] \<and> a \<in> set cs \<and> b \<in> set cs"
  by (auto simp: numeral_2_eq_2)

lemma lang_sep_pair:
  "u \<in> lang (Cat (In [c]) (rx_times 2 (In cs))) \<Longrightarrow>
     \<exists>a b. u = [c, a, b] \<and> a \<in> set cs \<and> b \<in> set cs"
  by (auto simp: numeral_2_eq_2)

lemma lang_CatE:
  assumes "w \<in> lang (Cat a b)"
  obtains u v where "w = u @ v" "u \<in> lang a" "v \<in> lang b"
  using assms by auto

lemma lang_EpsE: "w \<in> lang Eps \<Longrightarrow> w = []"
  by simp

lemma lang_octets:
  assumes "w \<in> lang (Cat (rx_times 2 (In cs)) (rx_times 5 (Cat (In [c]) (rx_times 2 (In cs)))))"
  obtains a1 a2 b1 b2 c1 c2 d1 d2 e1 e2 f1 f2 where
    "w = [a1, a2, c, b1, b2, c, c1, c2, c, d1, d2, c, e1, e2, c, f1, f2]"
    "list_all (\<lambda>x. x \<in> set cs) [a1, a2, b1, b2, c1, c2, d1, d2, e1, e2, f1, f2]"
proof -
  let ?p = "Cat (In [c]) (rx_times 2 (In cs))"
  have five: "rx_times 5 ?p = Cat ?p (Cat ?p (Cat ?p (Cat ?p (Cat ?p Eps))))"
    by (simp add: numeral_eq_Suc)
  from assms obtain u v where w: "w = u @ v" and u: "u \<in> lang (rx_times 2 (In cs))"
    and v: "v \<in> lang (rx_times 5 ?p)"
    by (rule lang_CatE)
  from u obtain a1 a2 where u': "u = [a1, a2]" "a1 \<in> set cs" "a2 \<in> set cs"
    using lang_pair by blast
  from v have v': "v \<in> lang (Cat ?p (Cat ?p (Cat ?p (Cat ?p (Cat ?p Eps)))))"
    by (simp only: five)
  from v' obtain v1 r1 where v1: "v = v1 @ r1" "v1 \<in> lang ?p"
    "r1 \<in> lang (Cat ?p (Cat ?p (Cat ?p (Cat ?p Eps))))"
    by (rule lang_CatE)
  from v1(3) obtain v2 r2 where v2: "r1 = v2 @ r2" "v2 \<in> lang ?p"
    "r2 \<in> lang (Cat ?p (Cat ?p (Cat ?p Eps)))"
    by (rule lang_CatE)
  from v2(3) obtain v3 r3 where v3: "r2 = v3 @ r3" "v3 \<in> lang ?p"
    "r3 \<in> lang (Cat ?p (Cat ?p Eps))"
    by (rule lang_CatE)
  from v3(3) obtain v4 r4 where v4: "r3 = v4 @ r4" "v4 \<in> lang ?p"
    "r4 \<in> lang (Cat ?p Eps)"
    by (rule lang_CatE)
  from v4(3) obtain v5 r5 where v5: "r4 = v5 @ r5" "v5 \<in> lang ?p" "r5 \<in> lang Eps"
    by (rule lang_CatE)
  from v5(3) have r5: "r5 = []" by (rule lang_EpsE)
  from v1(2) obtain b1 b2 where b: "v1 = [c, b1, b2]" "b1 \<in> set cs" "b2 \<in> set cs"
    using lang_sep_pair by blast
  from v2(2) obtain c1 c2 where c: "v2 = [c, c1, c2]" "c1 \<in> set cs" "c2 \<in> set cs"
    using lang_sep_pair by blast
  from v3(2) obtain d1 d2 where d: "v3 = [c, d1, d2]" "d1 \<in> set cs" "d2 \<in> set cs"
    using lang_sep_pair by blast
  from v4(2) obtain e1 e2 where e: "v4 = [c, e1, e2]" "e1 \<in> set cs" "e2 \<in> set cs"
    using lang_sep_pair by blast
  from v5(2) obtain f1 f2 where f: "v5 = [c, f1, f2]" "f1 \<in> set cs" "f2 \<in> set cs"
    using lang_sep_pair by blast
  have "w = [a1, a2, c, b1, b2, c, c1, c2, c, d1, d2, c, e1, e2, c, f1, f2]"
    using w u'(1) v1(1) v2(1) v3(1) v4(1) v5(1) r5 b(1) c(1) d(1) e(1) f(1) by simp
  moreover have "list_all (\<lambda>x. x \<in> set cs) [a1, a2, b1, b2, c1, c2, d1, d2, e1, e2, f1, f2]"
    using u'(2,3) b(2,3) c(2,3) d(2,3) e(2,3) f(2,3) by simp
  ultimately show thesis by (rule that)
qed

lemma mac_colon_canonical: "w \<in> lang mac_colon \<Longrightarrow> canonical w"
  unfolding mac_colon_def
  by (erule lang_octets) (simp add: canonical_def numeral_eq_Suc is_lower_hex_def)

lemma normalize_canonical: "canonical s \<Longrightarrow> normalize (RStr s) = Some s"
proof -
  assume c: "canonical s"
  then have "list_all plain s" and "length s = 17"
    using octet_groups_plain [of 6 s] by (simp_all add: canonical_def)
  then show ?thesis
    by (simp add: normalize_def cleaned_plain fix_no_colons_def insert_applies_def require_17_def)
qed

lemma harmless_canonical: "canonical w \<Longrightarrow> harmless (RStr w)"
  by (simp add: harmless_def normalize_canonical)

lemma hex_lower_facts:
  assumes "is_hex c"
  shows "is_lower_hex (lower_char c)" "\<not> is_space (lower_char c)"
    "lower_char c \<noteq> CHR ''-''" "lower_char c \<noteq> CHR '' ''" "\<not> is_space c"
proof -
  show l: "is_lower_hex (lower_char c)" using assms by (rule lower_char_hex)
  then have p: "plain (lower_char c)" by (simp add: plain_def)
  from plain_facts [OF p] show "\<not> is_space (lower_char c)"
    "lower_char c \<noteq> CHR ''-''" "lower_char c \<noteq> CHR '' ''" by simp_all
  show "\<not> is_space c"
    using assms unfolding is_hex_def hex_digits_any_def
    apply (simp only: set_simps insert_iff empty_iff)
    apply (elim disjE)
    apply (simp_all add: is_space_def whitespace_def)
    done
qed

lemma lower_char_hyphen: "lower_char CHR ''-'' = CHR ''-''"
  by (simp add: lower_char_def upper_letters_def lower_letters_def)

lemma mac_hyphen_harmless: "w \<in> lang mac_hyphen \<Longrightarrow> harmless (RStr w)"
  unfolding mac_hyphen_def
proof (erule lang_octets)
  fix a1 a2 b1 b2 c1 c2 d1 d2 e1 e2 f1 f2
  assume w: "w = [a1, a2, CHR ''-'', b1, b2, CHR ''-'', c1, c2, CHR ''-'', d1, d2, CHR ''-'',
      e1, e2, CHR ''-'', f1, f2]"
    and h: "list_all (\<lambda>x. x \<in> set hex_digits_any)
      [a1, a2, b1, b2, c1, c2, d1, d2, e1, e2, f1, f2]"
  from h have hx: "is_hex a1" "is_hex a2" "is_hex b1" "is_hex b2" "is_hex c1" "is_hex c2"
    "is_hex d1" "is_hex d2" "is_hex e1" "is_hex e2" "is_hex f1" "is_hex f2"
    by (simp_all add: is_hex_def)
  have c: "cleaned (RStr w) =
    [lower_char a1, lower_char a2, CHR '':'', lower_char b1, lower_char b2, CHR '':'',
     lower_char c1, lower_char c2, CHR '':'', lower_char d1, lower_char d2, CHR '':'',
     lower_char e1, lower_char e2, CHR '':'', lower_char f1, lower_char f2]"
    unfolding w cleaned_def py_str.simps py_lower_def py_strip_def py_lstrip_def py_rstrip_def
      py_replace_def
    by (simp add: lower_char_hyphen hx [THEN hex_lower_facts(2)] hx [THEN hex_lower_facts(3)]
        hx [THEN hex_lower_facts(4)])
  show "harmless (RStr w)"
    unfolding harmless_def normalize_cases c
    by (simp add: canonical_def numeral_eq_Suc hx [THEN hex_lower_facts(1)])
qed

lemma hwaddr_harmless: "w \<in> lang (Alt (rx_lit ''HWaddr'') (rx_lit ''Ether'')) \<Longrightarrow> harmless (RStr w)"
proof -
  assume "w \<in> lang (Alt (rx_lit ''HWaddr'') (rx_lit ''Ether''))"
  then have "w = ''HWaddr'' \<or> w = ''Ether''" by (simp only: lang.simps lang_lit) blast
  moreover have "normalize (RStr ''HWaddr'') = None"
    by (simp add: normalize_cases cleaned_def py_lower_def lower_char_def upper_letters_def
        lower_letters_def py_strip_def py_lstrip_def py_rstrip_def is_space_def whitespace_def
        py_replace_def)
  moreover have "normalize (RStr ''Ether'') = None"
    by (simp add: normalize_cases cleaned_def py_lower_def lower_char_def upper_letters_def
        lower_letters_def py_strip_def py_lstrip_def py_rstrip_def is_space_def whitespace_def
        py_replace_def)
  ultimately show ?thesis by (auto simp: harmless_def)
qed

lemma search_caps:
  assumes "search r text gi = Inr (Some w)"
  shows "w \<in> caps_in r (Suc gi)"
proof -
  from assms obtain c where c: "rx_search r text = Some c" "c (Suc gi) = Some w"
    by (auto simp: search_def split: option.splits if_splits)
  from rx_search_caps [OF c(1), of "Suc gi"] c(2) show ?thesis by auto
qed

lemma caps_ipconfig: "caps_in (ipconfig_regex iface) 1 = lang mac_hyphen"
  by (simp add: ipconfig_regex_def Let_def caps_in_lit caps_in_upto caps_in_mac_hyphen rx_opt_def
      rx_plus_def rx_dot_def)

lemma caps_ifconfig:
  "caps_in (ifconfig_regex iface) 1 = lang (Alt (rx_lit ''HWaddr'') (rx_lit ''Ether''))"
  by (simp add: ifconfig_regex_def caps_in_lit caps_in_mac_colon rx_dot_def del: lang.simps)

lemma caps_ip_link: "caps_in (ip_link_regex iface) 1 = lang mac_colon"
  by (simp add: ip_link_regex_def caps_in_lit caps_in_mac_colon rx_dot_def)

lemma caps_arp: "caps_in (arp_regex addr) 1 = lang mac_colon"
  by (simp add: arp_regex_def caps_in_lit caps_in_mac_colon rx_plus_def rx_space_def)

lemma caps_cat_arp: "caps_in (cat_arp_regex addr) 1 = lang mac_colon"
  by (simp add: cat_arp_regex_def caps_in_lit caps_in_mac_colon rx_dot_def)

lemma caps_netstat: "caps_in (netstat_regex iface) 2 = lang mac_colon"
  by (simp add: netstat_regex_def caps_in_lit caps_in_mac_colon rx_dot_def)

section \<open>What the probes return\<close>

lemma search_output_caps:
  assumes "candidate (search_output h r command args gi w) = (Inr (Some m), w')"
  obtains g where "m = RStr g" "g \<in> caps_in r (Suc gi)"
proof -
  from assms obtain out g where
    "search r out gi = Inr (Some g)" "m = RStr g"
    by (auto simp: candidate_def search_output_def split: prod.splits sum.splits)
  then show thesis using that search_caps by blast
qed

lemma windows_ipconfig_harmless:
  assumes "windows_ipconfig_by_interface h iface w = (Inr (Some m), w')"
  shows "harmless m"
proof -
  from assms [unfolded windows_ipconfig_by_interface_def]
  obtain g where "m = RStr g" "g \<in> caps_in (ipconfig_regex iface) (Suc 0)"
    by (rule search_output_caps)
  then show ?thesis using caps_ipconfig [of iface] by (simp add: mac_hyphen_harmless)
qed

lemma unix_interface_ip_harmless:
  assumes "unix_interface_ip_command h iface w = (Inr (Some m), w')"
  shows "harmless m"
proof -
  from assms [unfolded unix_interface_ip_command_def]
  obtain g where "m = RStr g" "g \<in> caps_in (ip_link_regex iface) (Suc 0)"
    by (rule search_output_caps)
  then show ?thesis
    using caps_ip_link [of iface] by (simp add: mac_colon_canonical harmless_canonical)
qed

lemma unix_ip_arp_harmless:
  assumes "unix_ip_arp_command h addr w = (Inr (Some m), w')"
  shows "harmless m"
proof -
  from assms [unfolded unix_ip_arp_command_def]
  obtain g where "m = RStr g" "g \<in> caps_in (arp_regex addr) (Suc 0)"
    by (rule search_output_caps)
  then show ?thesis
    using caps_arp [of addr] by (simp add: mac_colon_canonical harmless_canonical)
qed

lemma unix_ip_cat_arp_harmless:
  assumes "unix_ip_cat_arp h addr w = (Inr (Some m), w')"
  shows "harmless m"
proof -
  from assms [unfolded unix_ip_cat_arp_def]
  obtain g where "m = RStr g" "g \<in> caps_in (cat_arp_regex addr) (Suc 0)"
    by (rule search_output_caps)
  then show ?thesis
    using caps_cat_arp [of addr] by (simp add: mac_colon_canonical harmless_canonical)
qed

lemma unix_netstat_harmless:
  assumes "unix_netstat_by_interface h iface w = (Inr (Some m), w')"
  shows "harmless m"
proof -
  from assms [unfolded unix_netstat_by_interface_def]
  obtain g where "m = RStr g" "g \<in> caps_in (netstat_regex iface) (Suc 1)"
    by (rule search_output_caps)
  then show ?thesis
    using caps_netstat [of iface]
    by (simp add: mac_colon_canonical harmless_canonical numeral_2_eq_2)
qed

lemma ifconfig_loop_harmless:
  "ifconfig_loop h iface args w = (Inr (Some m), w') \<Longrightarrow> harmless m"
proof (induction args arbitrary: w)
  case Nil
  then show ?case by simp
next
  case (Cons arg args)
  obtain r w1 where so: "search_output h (ifconfig_regex iface) ''ifconfig'' arg 0 w = (r, w1)"
    by (cases "search_output h (ifconfig_regex iface) ''ifconfig'' arg 0 w")
  show ?case
  proof (cases r)
    case (Inl e)
    with so Cons.prems show ?thesis by simp
  next
    case (Inr mac)
    show ?thesis
    proof (cases "mac \<noteq> None \<and> mac \<noteq> Some []")
      case True
      with so Inr Cons.prems have m: "map_option RStr mac = Some m" by simp
      then obtain g where g: "mac = Some g" "m = RStr g" by auto
      have "candidate (search_output h (ifconfig_regex iface) ''ifconfig'' arg 0 w)
        = (Inr (Some m), w1)"
        using so Inr g by (simp add: candidate_def)
      then obtain g' where "m = RStr g'" "g' \<in> caps_in (ifconfig_regex iface) (Suc 0)"
        by (rule search_output_caps)
      then show ?thesis using caps_ifconfig [of iface] by (simp add: hwaddr_harmless)
    next
      case False
      with so Inr Cons.prems have "ifconfig_loop h iface args w1 = (Inr (Some m), w')"
        by auto
      then show ?thesis by (rule Cons.IH)
    qed
  qed
qed

lemma unix_ifconfig_harmless:
  "unix_ifconfig_by_interface h iface w = (Inr (Some m), w') \<Longrightarrow> harmless m"
  unfolding unix_ifconfig_by_interface_def by (rule ifconfig_loop_harmless)

lemma unix_ip_ip_harmless:
  "unix_ip_ip_command h addr w = (Inr (Some m), w') \<Longrightarrow> harmless m"
  by (simp add: unix_ip_ip_command_def)

section \<open>Bytes as hexadecimal text\<close>

lemma lower_hex_nth: "k < 16 \<Longrightarrow> is_lower_hex (lower_hex_digits ! k)"
  unfolding is_lower_hex_def by (rule nth_mem) (simp add: lower_hex_digits_def)

lemma hex_digits_small: "n < 16 \<Longrightarrow> hex_digits n = [lower_hex_digits ! n]"
  by (subst hex_digits.simps) simp

lemma hex_digits_byte:
  "16 \<le> n \<Longrightarrow> n < 256 \<Longrightarrow>
     hex_digits n = [lower_hex_digits ! (n div 16), lower_hex_digits ! (n mod 16)]"
proof -
  assume a: "16 \<le> n" "n < 256"
  then have "n div 16 < 16" by simp
  then show ?thesis using a
    by (subst hex_digits.simps) (simp add: hex_digits_small)
qed

lemma lower_hex_not_x: "is_lower_hex c \<Longrightarrow> c \<noteq> CHR ''x''"
  unfolding is_lower_hex_def lower_hex_digits_def by auto

lemma zero_lower_hex: "is_lower_hex CHR ''0''"
  by (simp add: is_lower_hex_def lower_hex_digits_def)

lemma format_02x_byte:
  assumes "n < 256"
  obtains a b where "format_02x n = [a, b]" "is_lower_hex a" "is_lower_hex b"
proof (cases "n < 16")
  case True
  then have "format_02x n = [CHR ''0'', lower_hex_digits ! n]"
    by (simp add: format_02x_def hex_digits_small)
  then show ?thesis using that zero_lower_hex lower_hex_nth [OF True] by blast
next
  case False
  then have "format_02x n = [lower_hex_digits ! (n div 16), lower_hex_digits ! (n mod 16)]"
    using assms by (simp add: format_02x_def hex_digits_byte)
  moreover have "n div 16 < 16" "n mod 16 < 16" using assms by simp_all
  ultimately show ?thesis using that lower_hex_nth by blast
qed

lemma replace_0x:
  "b \<noteq> CHR ''x'' \<Longrightarrow> py_replace_str ''0x'' [] (''0x'' @ [a, b]) = [a, b]"
  by simp

lemma replace_x:
  "d \<noteq> CHR ''x'' \<Longrightarrow> py_replace_str ''x'' [] (''0x'' @ [d]) = [CHR ''0'', d]"
  by simp

lemma byte_text_byte:
  assumes "n < 256"
  obtains a b where "byte_text n = [a, b]" "is_lower_hex a" "is_lower_hex b"
proof (cases "n < 16")
  case True
  let ?d = "lower_hex_digits ! n"
  have d: "is_lower_hex ?d" using True by (rule lower_hex_nth)
  then have x: "?d \<noteq> CHR ''x''" by (rule lower_hex_not_x)
  have "byte_text n = py_replace_str ''x'' [] (''0x'' @ [?d])"
    using True by (simp only: byte_text_def py_hex_def hex_digits_small Let_def) simp
  then have "byte_text n = [CHR ''0'', ?d]" by (simp only: replace_x [OF x])
  then show ?thesis using that zero_lower_hex d by blast
next
  case False
  let ?a = "lower_hex_digits ! (n div 16)" and ?b = "lower_hex_digits ! (n mod 16)"
  have "n div 16 < 16" "n mod 16 < 16" using assms by simp_all
  then have ab: "is_lower_hex ?a" "is_lower_hex ?b" by (simp_all add: lower_hex_nth)
  then have x: "?b \<noteq> CHR ''x''" by (simp add: lower_hex_not_x)
  have h: "hex_digits n = [?a, ?b]" using False assms by (simp add: hex_digits_byte)
  have "n > 15" using False by simp
  then have "byte_text n = py_replace_str ''0x'' [] (''0x'' @ [?a, ?b])"
    by (simp only: byte_text_def py_hex_def h Let_def if_True)
  then have "byte_text n = [?a, ?b]" by (simp only: replace_0x [OF x])
  then show ?thesis using that ab by blast
qed

lemma of_char_byte: "(of_char c :: nat) < 256"
proof -
  have "of_char c = (of_char c :: nat) mod 256" by (simp only: of_char_mod_256)
  also have "\<dots> < 256" by simp
  finally show ?thesis .
qed


lemma pair_shape: "length p = 2 \<Longrightarrow> \<exists>a b. p = [a, b]"
  by (auto simp: numeral_2_eq_2 length_Suc_conv)

lemma join_octets:
  "ps \<noteq> [] \<Longrightarrow> list_all (\<lambda>p. length p = 2 \<and> list_all is_lower_hex p) ps \<Longrightarrow>
     octet_groups (length ps) (py_join '':'' ps)"
proof (induction "'':''" ps rule: py_join.induct)
  case 1
  then show ?case by simp
next
  case (2 p)
  then obtain a b where "p = [a, b]" using pair_shape [of p] by auto
  with 2 show ?case by simp
next
  case (3 p q ps)
  then obtain a b where p: "p = [a, b]" using pair_shape [of p] by auto
  from 3 have "octet_groups (length (q # ps)) (py_join '':'' (q # ps))" by simp
  with 3(3) p show ?case by simp
qed

lemma harmless_empty: "harmless (RStr [])"
  by (simp add: harmless_def normalize_cases cleaned_def py_lower_def py_strip_def py_lstrip_def
      py_rstrip_def py_replace_def)

lemma harmless_join:
  assumes "list_all (\<lambda>p. length p = 2 \<and> list_all is_lower_hex p) ps" and "length ps \<le> 6"
  shows "harmless (RStr (py_join '':'' ps))"
proof (cases "ps = []")
  case True
  then show ?thesis by (simp add: harmless_empty)
next
  case False
  let ?j = "py_join '':'' ps"
  have og: "octet_groups (length ps) ?j" using False assms(1) by (rule join_octets)
  then have pl: "list_all plain ?j" by (rule octet_groups_plain)
  from og have len: "Suc (length ?j) = 3 * length ps" by (rule octet_groups_length)
  show ?thesis
  proof (cases "length ps = 6")
    case True
    with og len have "canonical ?j" by (simp add: canonical_def)
    then show ?thesis by (rule harmless_canonical)
  next
    case False
    with assms(2) have "length ps \<le> 5" by simp
    with len have "length ?j \<noteq> 12" "length ?j \<noteq> 17" by presburger+
    then show ?thesis using pl by (simp add: harmless_def normalize_cases cleaned_plain)
  qed
qed

lemma unix_fcntl_harmless:
  assumes "unix_fcntl_by_interface h iface w = (Inr (Some m), w')"
  shows "harmless m"
proof -
  from assms obtain info where
    m: "m = RStr (py_join '':'' (map (\<lambda>char. format_02x (of_char char)) (take 6 (drop 18 info))))"
    by (auto simp: unix_fcntl_by_interface_def split: prod.splits sum.splits)
  have "\<And>c. length (format_02x (of_char c)) = 2 \<and> list_all is_lower_hex (format_02x (of_char c))"
  proof -
    fix c :: char
    obtain a b where "format_02x (of_char c) = [a, b]" "is_lower_hex a" "is_lower_hex b"
      using format_02x_byte [OF of_char_byte [of c]] by blast
    then show "length (format_02x (of_char c)) = 2 \<and> list_all is_lower_hex (format_02x (of_char c))"
      by simp
  qed
  then have "list_all (\<lambda>p. length p = 2 \<and> list_all is_lower_hex p)
      (map (\<lambda>char. format_02x (of_char char)) (take 6 (drop 18 info)))"
    by (simp add: list_all_iff)
  then show ?thesis unfolding m by (rule harmless_join) simp
qed

lemma foldl_append_concat: "foldl (\<lambda>acc x. acc @ f x) acc xs = acc @ concat (map f xs)"
  by (induction xs arbitrary: acc) simp_all

lemma concat_pairs:
  "list_all (\<lambda>p. length p = 2 \<and> list_all is_lower_hex p) ps \<Longrightarrow>
     length (concat ps) = 2 * length ps \<and> list_all is_lower_hex (concat ps)"
  by (induction ps) simp_all

lemma harmless_twelve:
  assumes "length s = 12" and "list_all is_lower_hex s"
  shows "harmless (RStr s)"
proof -
  from assms(2) have "cleaned (RStr s) = s" by (simp add: lower_hex_plain cleaned_plain)
  then show ?thesis
    using assms by (simp add: harmless_def normalize_cases colon_every_two_canonical)
qed

lemma send_arp_text_harmless:
  assumes "send_arp_text h inetaddr w = (Inr (Some m), w')"
  shows "harmless m"
proof -
  from assms obtain buffer where b: "length buffer = 6"
    and m: "m = RStr (foldl (\<lambda>macaddr intval. macaddr @ byte_text intval) []
                 (map of_char buffer))"
    by (auto simp: send_arp_text_def unpack_6B_def split: prod.splits sum.splits if_splits)
  let ?ps = "map byte_text (map of_char buffer)"
  have "\<And>c :: char. length (byte_text (of_char c)) = 2 \<and> list_all is_lower_hex (byte_text (of_char c))"
  proof -
    fix c :: char
    obtain a b where "byte_text (of_char c) = [a, b]" "is_lower_hex a" "is_lower_hex b"
      using byte_text_byte [OF of_char_byte [of c]] by blast
    then show "length (byte_text (of_char c)) = 2 \<and> list_all is_lower_hex (byte_text (of_char c))"
      by simp
  qed
  then have "list_all (\<lambda>p. length p = 2 \<and> list_all is_lower_hex p) ?ps"
    by (simp add: list_all_iff)
  from concat_pairs [OF this] b
  have "length (concat ?ps) = 12" "list_all is_lower_hex (concat ?ps)" by simp_all
  then have "harmless (RStr (concat ?ps))" by (rule harmless_twelve)
  then show ?thesis unfolding m by (simp add: foldl_append_concat)
qed

lemma windows_get_remote_mac_harmless:
  assumes "windows_get_remote_mac h host0 w = (Inr (Some m), w')"
  shows "harmless m"
proof -
  from assms obtain inetaddr w1 where "send_arp_text h inetaddr w1 = (Inr (Some m), w')"
    by (auto simp: windows_get_remote_mac_def Let_def
        split: if_splits option.splits sum.splits prod.splits)
  then show ?thesis by (rule send_arp_text_harmless)
qed

section \<open>The matcher of the lanscan probe\<close>

lemma upper_not_space: "c \<in> set upper_letters \<Longrightarrow> \<not> is_space c"
  unfolding upper_letters_def
  apply (simp only: set_simps insert_iff empty_iff)
  apply (elim disjE)
  apply (simp_all add: is_space_def whitespace_def)
  done

lemma lower_not_space: "c \<in> set lower_letters \<Longrightarrow> \<not> is_space c"
  unfolding lower_letters_def
  apply (simp only: set_simps insert_iff empty_iff)
  apply (elim disjE)
  apply (simp_all add: is_space_def whitespace_def)
  done

lemma is_space_lower: "is_space (lower_char c) = is_space c"
proof (cases "map_of (zip upper_letters lower_letters) c")
  case None
  then show ?thesis by (simp add: lower_char_def)
next
  case (Some d)
  then have "(c, d) \<in> set (zip upper_letters lower_letters)" by (rule map_of_SomeD)
  then have "c \<in> set upper_letters" "d \<in> set lower_letters"
    by (auto dest: set_zip_leftD set_zip_rightD)
  then have "\<not> is_space c" "\<not> is_space d" by (simp_all add: upper_not_space lower_not_space)
  then show ?thesis using Some by (simp add: lower_char_def)
qed

lemma words_of_char: "words_of c = (if is_space c then [] else [[lower_char c]])"
  by (simp add: words_of_def py_lower_def py_rstrip_def py_split_def is_space_lower)

lemma hex_value_bound: "hex_value c = Some d \<Longrightarrow> d < 16"
proof -
  assume "hex_value c = Some d"
  then have "(c, d) \<in> set (zip hex_digits_any
      [0, 1, 2, 3, 4, 5, 6, 7, 8, 9, 10, 11, 12, 13, 14, 15, 10, 11, 12, 13, 14, 15])"
    unfolding hex_value_def by (rule map_of_SomeD)
  then have "d \<in> set [0, 1, 2, 3, 4, 5, 6, 7, 8, 9, 10, 11, 12, 13, 14, 15, 10, 11, 12, 13, 14, 15 :: nat]"
    by (rule set_zip_rightD)
  then show ?thesis by auto
qed

lemma py_strip_single: "py_strip [c] = (if is_space c then [] else [c])"
  by (simp add: py_strip_def py_lstrip_def py_rstrip_def)

lemma py_int16_single:
  assumes "py_int16 [c] = Inr n"
  shows "0 \<le> n \<and> n < 16"
proof (cases "is_space c \<or> c = CHR ''-'' \<or> c = CHR ''+''")
  case True
  then have "py_int16 [c] = Inl ValueError"
    by (auto simp: py_int16_def py_strip_single Let_def py_lower_def)
  with assms show ?thesis by simp
next
  case False
  then have "py_int16 [c] =
    (case hex_value c of None \<Rightarrow> Inl ValueError | Some d \<Rightarrow> Inr (int d))"
    by (auto simp: py_int16_def py_strip_single Let_def py_lower_def split: option.splits)
  with assms obtain d where "hex_value c = Some d" "n = int d"
    by (auto split: option.splits)
  then show ?thesis using hex_value_bound [of c d] by simp
qed

lemma py_int16_empty: "py_int16 [] = Inl ValueError"
  by (simp add: py_int16_def Let_def py_strip_def py_lstrip_def py_rstrip_def py_lower_def)

lemma py_int16_short:
  assumes "py_int16 x = Inr n" and "length x \<le> 1"
  shows "0 \<le> n \<and> n < 16"
proof (cases x)
  case Nil
  with assms(1) show ?thesis by (simp add: py_int16_empty)
next
  case (Cons c r)
  with assms(2) have "x = [c]" by simp
  with assms(1) show ?thesis using py_int16_single by simp
qed

lemma scan_words_single:
  "scan_words [[d]] [0..<length [[d]]] [iface] (\<lambda>i. 0) =
     (if [d] = iface then
        (case py_int16 (py_replace CHR '':'' [] [d]) of
           Inl e \<Rightarrow> Inl e
         | Inr mac \<Rightarrow> if mac \<noteq> 0 then Inr (Some mac) else Inr None)
      else Inr None)"
  by (simp add: py_index_def split: sum.splits)

lemma scan_line_bound:
  assumes "scan_words (words_of c) [0..<length (words_of c)] [iface] (\<lambda>i. 0) = Inr (Some mac)"
  shows "0 < mac \<and> mac < 16"
proof (cases "is_space c")
  case True
  with assms show ?thesis by (simp add: words_of_char)
next
  case False
  let ?d = "lower_char c"
  from False assms have
    s: "scan_words [[?d]] [0..<length [[?d]]] [iface] (\<lambda>i. 0) = Inr (Some mac)"
    by (simp only: words_of_char if_False)
  then have p: "py_int16 (py_replace CHR '':'' [] [?d]) = Inr mac" and nz: "mac \<noteq> 0"
    unfolding scan_words_single by (auto split: if_splits sum.splits)
  have l: "length (py_replace CHR '':'' [] [?d]) \<le> 1" by (simp add: py_replace_def)
  from p l have "0 \<le> mac \<and> mac < 16" by (rule py_int16_short)
  with nz show ?thesis by simp
qed

lemma scan_lines_bound:
  "scan_lines proc [iface] (\<lambda>i. 0) = Inr (Some mac) \<Longrightarrow> 0 < mac \<and> mac < 16"
proof (induction proc)
  case Nil
  then show ?case by simp
next
  case (Cons c proc)
  show ?case
  proof (cases "scan_words (words_of c) [0..<length (words_of c)] [iface] (\<lambda>i. 0)")
    case (Inl e)
    with Cons.prems show ?thesis by (simp add: Let_def)
  next
    case (Inr r)
    show ?thesis
    proof (cases r)
      case None
      with Inr Cons show ?thesis by (simp add: Let_def)
    next
      case (Some m)
      with Inr Cons.prems have "m = mac" by (simp add: Let_def)
      with Inr Some show ?thesis using scan_line_bound by simp
    qed
  qed
qed

lemma scan_line_long_name:
  assumes "1 < length iface"
  shows "scan_words (words_of c) [0..<length (words_of c)] [iface] (\<lambda>i. 0) = Inr None"
proof (cases "is_space c")
  case True
  then show ?thesis by (simp add: words_of_char)
next
  case False
  have "[lower_char c] \<noteq> iface" using assms by auto
  then show ?thesis using False by (simp only: words_of_char if_False scan_words_single)
qed

lemma scan_lines_long_name:
  "1 < length iface \<Longrightarrow> scan_lines proc [iface] (\<lambda>i. 0) = Inr None"
  by (induction proc) (simp_all add: Let_def scan_line_long_name)

section \<open>Integers as candidates\<close>

lemma dec_digits_short: "n < 100 \<Longrightarrow> length (dec_digits n) \<le> 2"
proof -
  assume a: "n < 100"
  show ?thesis
  proof (cases "n < 10")
    case True
    then show ?thesis by (subst dec_digits.simps) simp
  next
    case False
    with a have "n div 10 < 10" by simp
    then have "length (dec_digits (n div 10)) = 1" by (subst dec_digits.simps) simp
    then show ?thesis using False by (subst dec_digits.simps) simp
  qed
qed

lemma length_py_replace_one: "length (py_replace old [x] s) = length s"
  by (induction s) (simp_all add: py_replace_def)

lemma length_py_replace_none: "length (py_replace old [] s) \<le> length s"
  by (induction s) (simp_all add: py_replace_def)

lemma length_py_strip: "length (py_strip s) \<le> length s"
proof -
  have "length (py_strip s) \<le> length (dropWhile is_space s)"
    unfolding py_strip_def py_lstrip_def py_rstrip_def
    using length_dropWhile_le [of is_space "rev (dropWhile is_space s)"] by simp
  also have "\<dots> \<le> length s" by (rule length_dropWhile_le)
  finally show ?thesis .
qed

lemma length_cleaned: "length (cleaned m) \<le> length (py_str m)"
proof -
  have "length (cleaned m) \<le> length (py_strip (py_lower (py_str m)))"
    unfolding cleaned_def
    using length_py_replace_none [of "CHR '' ''" "py_replace CHR ''-'' '':'' (py_strip (py_lower (py_str m)))"]
    by (simp add: length_py_replace_one)
  also have "\<dots> \<le> length (py_lower (py_str m))" by (rule length_py_strip)
  finally show ?thesis by (simp add: py_lower_length)
qed

lemma harmless_small_int:
  assumes "0 < mac" and "mac < 16"
  shows "harmless (RInt mac)"
proof -
  have "length (py_str (RInt mac)) \<le> 2"
    using assms dec_digits_short [of "nat mac"] by (simp add: str_of_int_def)
  with length_cleaned [of "RInt mac"] have "length (cleaned (RInt mac)) \<le> 2" by simp
  then show ?thesis by (simp add: harmless_def normalize_cases)
qed

lemma unix_lanscan_harmless:
  assumes "unix_lanscan_interface h iface w = (Inr (Some m), w')"
  shows "harmless m"
proof -
  from assms obtain proc mac where
    "scan_lines proc [iface] (\<lambda>i. 0) = Inr (Some mac)" "m = RInt mac"
    by (auto simp: unix_lanscan_interface_def find_mac_def split: prod.splits sum.splits)
  then show ?thesis using scan_lines_bound [of proc iface mac] by (simp add: harmless_small_int)
qed

section \<open>The probe loop\<close>

lemma try_funcs_append_none:
  "try_funcs pre arg w = (None, w1) \<Longrightarrow> try_funcs (pre @ post) arg w = try_funcs post arg w1"
proof (induction pre arbitrary: w)
  case Nil
  then show ?case by simp
next
  case (Cons f pre)
  obtain r w2 where f: "f arg w = (r, w2)" by (cases "f arg w")
  show ?case
  proof (cases r)
    case (Inl e)
    with f Cons show ?thesis by simp
  next
    case (Inr found)
    with f Cons show ?thesis by (cases found) simp_all
  qed
qed

lemma try_funcs_first_success:
  assumes "try_funcs pre arg w = (None, w1)" and "f arg w1 = (Inr (Some mac), w2)"
  shows "try_funcs (pre @ f # post) arg w = (Some mac, w2)"
  using try_funcs_append_none [OF assms(1), of "f # post"] assms(2) by simp

lemma try_funcs_skip:
  assumes "f arg w = (Inl e, w1) \<or> f arg w = (Inr None, w1)"
  shows "try_funcs (f # fs) arg w = try_funcs fs arg w1"
  using assms by auto

lemma try_funcs_some:
  "try_funcs fs arg w = (Some mac, w2) \<Longrightarrow>
     \<exists>pre f post w1. fs = pre @ f # post \<and> try_funcs pre arg w = (None, w1) \<and>
       f arg w1 = (Inr (Some mac), w2)"
proof (induction fs arbitrary: w)
  case Nil
  then show ?case by simp
next
  case (Cons g fs)
  obtain r w3 where g: "g arg w = (r, w3)" by (cases "g arg w")
  have hit: ?case if "r = Inr (Some mac)" "w3 = w2"
  proof -
    have "g # fs = [] @ g # fs \<and> try_funcs [] arg w = (None, w) \<and> g arg w = (Inr (Some mac), w2)"
      using g that by simp
    then show ?thesis by blast
  qed
  have skip: ?case if t: "try_funcs fs arg w3 = (Some mac, w2)"
    and n: "try_funcs [g] arg w = (None, w3)"
  proof -
    from Cons.IH [OF t] obtain pre f post w1 where
      p: "fs = pre @ f # post" "try_funcs pre arg w3 = (None, w1)" "f arg w1 = (Inr (Some mac), w2)"
      by blast
    have "try_funcs ([g] @ pre) arg w = try_funcs pre arg w3"
      using n by (rule try_funcs_append_none)
    then have "g # fs = (g # pre) @ f # post \<and> try_funcs (g # pre) arg w = (None, w1) \<and>
        f arg w1 = (Inr (Some mac), w2)"
      using p by simp
    then show ?thesis by blast
  qed
  show ?case
  proof (cases r)
    case (Inl e)
    with g Cons.prems show ?thesis by (intro skip) simp_all
  next
    case (Inr found)
    show ?thesis
    proof (cases found)
      case None
      with Inr g Cons.prems show ?thesis by (intro skip) simp_all
    next
      case (Some m)
      with Inr g Cons.prems show ?thesis by (intro hit) simp_all
    qed
  qed
qed

lemma try_funcs_harmless:
  assumes "\<And>f x w w' m. f \<in> set fs \<Longrightarrow> f x w = (Inr (Some m), w') \<Longrightarrow> harmless m"
    and "try_funcs fs arg w = (Some mac, w2)"
  shows "harmless mac"
proof -
  from try_funcs_some [OF assms(2)] obtain pre f post w1 where
    "fs = pre @ f # post" "f arg w1 = (Inr (Some mac), w2)" by blast
  then show ?thesis using assms(1) [of f arg w1 mac w2] by simp
qed

lemma remote_funcs_harmless:
  assumes "f \<in> set (remote_funcs h)" and "f x w = (Inr (Some m), w')"
  shows "harmless m"
proof (cases "win32 h")
  case True
  with assms show ?thesis by (auto simp: remote_funcs_def dest: windows_get_remote_mac_harmless)
next
  case False
  with assms(1) consider "f = unix_ip_arp_command h" | "f = unix_ip_cat_arp h"
    | "f = unix_ip_ip_command h"
    by (auto simp: remote_funcs_def)
  then show ?thesis
    using assms(2)
    by cases (auto dest: unix_ip_arp_harmless unix_ip_cat_arp_harmless unix_ip_ip_harmless)
qed

lemma interface_funcs_harmless:
  assumes "f \<in> set (interface_funcs h)" and "f x w = (Inr (Some m), w')"
  shows "harmless m"
proof (cases "win32 h")
  case True
  with assms show ?thesis
    by (auto simp: interface_funcs_def dest: windows_ipconfig_harmless)
next
  case False
  with assms(1) consider "f = unix_ifconfig_by_interface h" | "f = unix_interface_ip_command h"
    | "f = unix_netstat_by_interface h" | "f = unix_fcntl_by_interface h"
    | "f = unix_lanscan_interface h"
    by (auto simp: interface_funcs_def)
  then show ?thesis
    using assms(2)
    by cases (auto dest: unix_ifconfig_harmless unix_interface_ip_harmless unix_netstat_harmless
        unix_fcntl_harmless unix_lanscan_harmless)
qed

lemma finish_canonical:
  assumes "\<And>f x w w' m. f \<in> set fs \<Longrightarrow> f x w = (Inr (Some m), w') \<Longrightarrow> harmless m"
    and "finish (try_funcs fs arg w) = (Inr (Some mac), w2)"
  shows "canonical mac"
proof -
  obtain r w3 where t: "try_funcs fs arg w = (r, w3)" by (cases "try_funcs fs arg w")
  with assms(2) obtain m where r: "r = Some m" and n: "normalize m = Some mac"
    by (cases r) (simp_all add: finish_def)
  from t r have "try_funcs fs arg w = (Some m, w3)" by simp
  with assms(1) have "harmless m" by (rule try_funcs_harmless)
  with n show ?thesis by (simp add: harmless_def)
qed

lemma get_mac_address_result:
  assumes "get_mac_address h a w = (Inr (Some mac), w2)"
  shows "canonical mac"
proof -
  from assms consider
    (remote) addr w1 where "finish (try_funcs (remote_funcs h) addr w1) = (Inr (Some mac), w2)"
  | (none) addr w1 where "finish (try_funcs [] addr w1) = (Inr (Some mac), w2)"
  | (local) arg w1 where "finish (try_funcs (interface_funcs h) arg w1) = (Inr (Some mac), w2)"
    unfolding get_mac_address_def
    by (auto split: prod.splits sum.splits option.splits if_splits)
  then show ?thesis
  proof cases
    case remote
    with remote_funcs_harmless show ?thesis by (rule finish_canonical)
  next
    case none
    then show ?thesis by (simp add: finish_def)
  next
    case local
    with interface_funcs_harmless show ?thesis by (rule finish_canonical)
  qed
qed

section \<open>Runs on the example host\<close>

lemma popen_unix_box:
  "popen (unix_box commands resolver) command (Some args) w =
     (case commands (command # py_split args) of
        (retcode, output) \<Rightarrow>
          if retcode \<noteq> 0
          then (Inl (CalledProcessError retcode), w @ [Exec (command # py_split args)])
          else (Inr output, w @ [Exec (command # py_split args)]))"
  by (simp add: popen_def find_executable_def unix_box_def Let_def split: prod.splits)

lemma unix_box_fields:
  "win32 (unix_box commands resolver) = False"
  "has_ipv6 (unix_box commands resolver) = False"
  "gethostbyname (unix_box commands resolver) name w = (resolver name, w @ [Lookup name])"
  "warn (unix_box commands resolver) message w = w @ [Warning message]"
  by (simp_all add: unix_box_def)

lemma split_ping4: "py_split ''-c 1 10.0.0.1'' = [''-c'', ''1'', ''10.0.0.1'']"
  by (simp add: py_split_def is_space_def whitespace_def)

lemma split_ping6_none: "py_split ''-c 1 None'' = [''-c'', ''1'', ''None'']"
  by (simp add: py_split_def is_space_def whitespace_def)

lemma split_ping6: "py_split ''-c 1 fe80::1'' = [''-c'', ''1'', ''fe80::1'']"
  by (simp add: py_split_def is_space_def whitespace_def)

lemma split_an: "py_split ''-an'' = [''-an'']"
  by (simp add: py_split_def is_space_def whitespace_def)

lemma split_ai: "py_split ''-ai'' = [''-ai'']"
  by (simp add: py_split_def is_space_def whitespace_def)

lemma run_ping_fails:
  "get_mac_address (unix_box (failing 1) no_names)
     (no_selector\<lparr>ip := Some ''10.0.0.1''\<rparr>) [] =
   (Inl (CalledProcessError 1), [Exec [''ping'', ''-c'', ''1'', ''10.0.0.1'']])"
  by (simp add: get_mac_address_def resolve_hostname_def no_selector_def ping_def
      unix_box_fields popen_unix_box split_ping4 failing_def)

lemma run_interface_pings:
  "get_mac_address (unix_box (failing 2) no_names)
     (no_selector\<lparr>interface := Some ''eth0''\<rparr>) [] =
   (Inl (CalledProcessError 2), [Exec [''ping6'', ''-c'', ''1'', ''None'']])"
  by (simp add: get_mac_address_def resolve_hostname_def no_selector_def ping_def
      unix_box_fields popen_unix_box split_ping6_none failing_def format_s_def)

lemma run_hostname_unknown:
  "get_mac_address (unix_box (failing 1) no_names)
     (no_selector\<lparr>hostname := Some ''nosuch.invalid''\<rparr>) [] =
   (Inl HostLookupError, [Lookup ''nosuch.invalid''])"
  by (simp add: get_mac_address_def resolve_hostname_def no_selector_def
      unix_box_fields no_names_def)

lemma run_ipv6_ping_fails:
  "get_mac_address (unix_box (failing 2) no_names)
     (no_selector\<lparr>ip6 := Some ''fe80::1''\<rparr>) [] =
   (Inl (CalledProcessError 2), [Exec [''ping6'', ''-c'', ''1'', ''fe80::1'']])"
  by (simp add: get_mac_address_def resolve_hostname_def no_selector_def ping_def
      unix_box_fields popen_unix_box split_ping6 failing_def format_s_def)

lemma run_ipv6_no_ping:
  "get_mac_address (unix_box (failing 2) no_names)
     (no_selector\<lparr>ip6 := Some ''fe80::1'', network_request := False\<rparr>) [] =
   (Inr None, [Warning ipv6_warning])"
  by (simp add: get_mac_address_def resolve_hostname_def no_selector_def
      unix_box_fields)

lemma run_probe_loop:
  "try_funcs [probe_raises, probe_finds, probe_other] ''eth0'' [] =
     (Some (RStr ''AA-BB-CC-DD-EE-FF''), [''first'', ''second''])"
  by (simp add: probe_raises_def probe_finds_def)


lemma search_arp_line:
  "search (arp_regex ''10.0.0.1'') ''? (10.0.0.1) at 00:1a:2b:3c:4d:5e [ether] on eth0'' 0 =
     Inr (Some ''00:1a:2b:3c:4d:5e'')"
  by (simp add: search_def arp_regex_def mac_colon_def rx_plus_def rx_space_def whitespace_def
      lower_hex_digits_def numeral_eq_Suc rx_match.simps)

lemma canonical_example: "canonical ''00:1a:2b:3c:4d:5e''"
  by (simp add: canonical_def numeral_eq_Suc is_lower_hex_def lower_hex_digits_def)

lemma run_arp:
  "get_mac_address (unix_box arp_table no_names)
     (no_selector\<lparr>ip := Some ''10.0.0.1'', network_request := False\<rparr>) [] =
   (Inr (Some ''00:1a:2b:3c:4d:5e''), [Exec [''arp'', ''-an'']])"
  by (simp add: get_mac_address_def resolve_hostname_def no_selector_def unix_box_fields
      remote_funcs_def unix_ip_arp_command_def candidate_def search_output_def popen_unix_box
      split_an arp_table_def search_arp_line finish_def normalize_canonical canonical_example)

lemma run_lanscan:
  "unix_lanscan_interface (unix_box lanscan_table no_names) ''lan0'' [] =
     (Inr None, [Exec [''lanscan'', ''-ai'']])"
proof -
  have "scan_lines ''0x001A4B0C1D2E lan0 snap0'' [''lan0''] (\<lambda>i. 0) = Inr None"
    by (rule scan_lines_long_name) simp
  then show ?thesis
    by (simp add: unix_lanscan_interface_def find_mac_def popen_unix_box split_ai
        lanscan_table_def del: scan_lines.simps)
qed

section \<open>The guard of the colon insertion on the candidates of the probes\<close>

lemma agrees_other_length: "length (cleaned m) \<noteq> 12 \<Longrightarrow> insert_agrees m"
  by (simp add: insert_agrees_def insert_applies_def spec_insert_condition_def)

lemma agrees_canonical: "canonical w \<Longrightarrow> insert_agrees (RStr w)"
proof -
  assume c: "canonical w"
  then have "list_all plain w" "length w = 17"
    using octet_groups_plain [of 6 w] by (simp_all add: canonical_def)
  then have "length (cleaned (RStr w)) = 17" by (simp add: cleaned_plain)
  then show ?thesis by (simp add: agrees_other_length)
qed

lemma lower_hex_is_hex: "is_lower_hex c \<Longrightarrow> is_hex c"
  unfolding is_lower_hex_def is_hex_def lower_hex_digits_def hex_digits_any_def by auto

lemma lower_hex_not_colon: "is_lower_hex c \<Longrightarrow> c \<noteq> CHR '':''"
  unfolding is_lower_hex_def lower_hex_digits_def by auto

lemma agrees_twelve:
  assumes "length s = 12" and "list_all is_lower_hex s"
  shows "insert_agrees (RStr s)" and "insert_applies (cleaned (RStr s))"
proof -
  from assms(2) have c: "cleaned (RStr s) = s" by (simp add: lower_hex_plain cleaned_plain)
  from assms(2) have "list_all is_hex s" "CHR '':'' \<notin> set s"
    by (auto simp: list_all_iff dest: lower_hex_is_hex lower_hex_not_colon)
  then show "insert_agrees (RStr s)" using assms(1)
    by (simp add: insert_agrees_def c insert_applies_def spec_insert_condition_def)
  show "insert_applies (cleaned (RStr s))" using assms(1) by (simp add: c insert_applies_def)
qed

lemma agrees_mac_hyphen: "w \<in> lang mac_hyphen \<Longrightarrow> insert_agrees (RStr w)"
  unfolding mac_hyphen_def
proof (erule lang_octets)
  fix a1 a2 b1 b2 c1 c2 d1 d2 e1 e2 f1 f2
  assume w: "w = [a1, a2, CHR ''-'', b1, b2, CHR ''-'', c1, c2, CHR ''-'', d1, d2, CHR ''-'',
      e1, e2, CHR ''-'', f1, f2]"
    and h: "list_all (\<lambda>x. x \<in> set hex_digits_any)
      [a1, a2, b1, b2, c1, c2, d1, d2, e1, e2, f1, f2]"
  from h have hx: "is_hex a1" "is_hex a2" "is_hex b1" "is_hex b2" "is_hex c1" "is_hex c2"
    "is_hex d1" "is_hex d2" "is_hex e1" "is_hex e2" "is_hex f1" "is_hex f2"
    by (simp_all add: is_hex_def)
  have c: "cleaned (RStr w) =
    [lower_char a1, lower_char a2, CHR '':'', lower_char b1, lower_char b2, CHR '':'',
     lower_char c1, lower_char c2, CHR '':'', lower_char d1, lower_char d2, CHR '':'',
     lower_char e1, lower_char e2, CHR '':'', lower_char f1, lower_char f2]"
    unfolding w cleaned_def py_str.simps py_lower_def py_strip_def py_lstrip_def py_rstrip_def
      py_replace_def
    by (simp add: lower_char_hyphen hx [THEN hex_lower_facts(2)] hx [THEN hex_lower_facts(3)]
        hx [THEN hex_lower_facts(4)])
  show "insert_agrees (RStr w)"
    by (rule agrees_other_length) (simp add: c)
qed

lemma agrees_hwaddr:
  "w \<in> lang (Alt (rx_lit ''HWaddr'') (rx_lit ''Ether'')) \<Longrightarrow> insert_agrees (RStr w)"
proof -
  assume "w \<in> lang (Alt (rx_lit ''HWaddr'') (rx_lit ''Ether''))"
  then have "w = ''HWaddr'' \<or> w = ''Ether''" by (simp only: lang.simps lang_lit) blast
  then have "length w \<le> 6" by auto
  with length_cleaned [of "RStr w"] have "length (cleaned (RStr w)) \<noteq> 12" by simp
  then show ?thesis by (rule agrees_other_length)
qed

lemma agrees_join:
  assumes "list_all (\<lambda>p. length p = 2 \<and> list_all is_lower_hex p) ps"
  shows "insert_agrees (RStr (py_join '':'' ps))"
proof (cases "ps = []")
  case True
  have "length (cleaned (RStr [])) \<le> 0" using length_cleaned [of "RStr []"] by simp
  then show ?thesis using True by (simp add: agrees_other_length)
next
  case False
  let ?j = "py_join '':'' ps"
  have og: "octet_groups (length ps) ?j" using False assms by (rule join_octets)
  then have pl: "list_all plain ?j" by (rule octet_groups_plain)
  from og have "Suc (length ?j) = 3 * length ps" by (rule octet_groups_length)
  then have "length ?j \<noteq> 12" by presburger
  then show ?thesis using pl by (simp add: agrees_other_length cleaned_plain)
qed

lemma agrees_small_int:
  assumes "0 < mac" and "mac < 16"
  shows "insert_agrees (RInt mac)"
proof -
  have "length (py_str (RInt mac)) \<le> 2"
    using assms dec_digits_short [of "nat mac"] by (simp add: str_of_int_def)
  with length_cleaned [of "RInt mac"] have "length (cleaned (RInt mac)) \<noteq> 12" by simp
  then show ?thesis by (rule agrees_other_length)
qed

lemma agrees_mac_colon: "w \<in> lang mac_colon \<Longrightarrow> insert_agrees (RStr w)"
  by (rule agrees_canonical) (rule mac_colon_canonical)

lemma windows_ipconfig_agrees:
  assumes "windows_ipconfig_by_interface h iface w = (Inr (Some m), w')"
  shows "insert_agrees m"
proof -
  from assms [unfolded windows_ipconfig_by_interface_def]
  obtain g where "m = RStr g" "g \<in> caps_in (ipconfig_regex iface) (Suc 0)"
    by (rule search_output_caps)
  then show ?thesis using caps_ipconfig [of iface] by (simp add: agrees_mac_hyphen)
qed

lemma unix_interface_ip_agrees:
  assumes "unix_interface_ip_command h iface w = (Inr (Some m), w')"
  shows "insert_agrees m"
proof -
  from assms [unfolded unix_interface_ip_command_def]
  obtain g where "m = RStr g" "g \<in> caps_in (ip_link_regex iface) (Suc 0)"
    by (rule search_output_caps)
  then show ?thesis using caps_ip_link [of iface] by (simp add: agrees_mac_colon)
qed

lemma unix_ip_arp_agrees:
  assumes "unix_ip_arp_command h addr w = (Inr (Some m), w')"
  shows "insert_agrees m"
proof -
  from assms [unfolded unix_ip_arp_command_def]
  obtain g where "m = RStr g" "g \<in> caps_in (arp_regex addr) (Suc 0)"
    by (rule search_output_caps)
  then show ?thesis using caps_arp [of addr] by (simp add: agrees_mac_colon)
qed

lemma unix_ip_cat_arp_agrees:
  assumes "unix_ip_cat_arp h addr w = (Inr (Some m), w')"
  shows "insert_agrees m"
proof -
  from assms [unfolded unix_ip_cat_arp_def]
  obtain g where "m = RStr g" "g \<in> caps_in (cat_arp_regex addr) (Suc 0)"
    by (rule search_output_caps)
  then show ?thesis using caps_cat_arp [of addr] by (simp add: agrees_mac_colon)
qed

lemma unix_netstat_agrees:
  assumes "unix_netstat_by_interface h iface w = (Inr (Some m), w')"
  shows "insert_agrees m"
proof -
  from assms [unfolded unix_netstat_by_interface_def]
  obtain g where "m = RStr g" "g \<in> caps_in (netstat_regex iface) (Suc 1)"
    by (rule search_output_caps)
  then show ?thesis
    using caps_netstat [of iface] by (simp add: agrees_mac_colon numeral_2_eq_2)
qed

lemma ifconfig_loop_agrees:
  "ifconfig_loop h iface args w = (Inr (Some m), w') \<Longrightarrow> insert_agrees m"
proof (induction args arbitrary: w)
  case Nil
  then show ?case by simp
next
  case (Cons arg args)
  obtain r w1 where so: "search_output h (ifconfig_regex iface) ''ifconfig'' arg 0 w = (r, w1)"
    by (cases "search_output h (ifconfig_regex iface) ''ifconfig'' arg 0 w")
  show ?case
  proof (cases r)
    case (Inl e)
    with so Cons.prems show ?thesis by simp
  next
    case (Inr mac)
    show ?thesis
    proof (cases "mac \<noteq> None \<and> mac \<noteq> Some []")
      case True
      with so Inr Cons.prems have m: "map_option RStr mac = Some m" by simp
      then obtain g where g: "mac = Some g" "m = RStr g" by auto
      have "candidate (search_output h (ifconfig_regex iface) ''ifconfig'' arg 0 w)
        = (Inr (Some m), w1)"
        using so Inr g by (simp add: candidate_def)
      then obtain g' where "m = RStr g'" "g' \<in> caps_in (ifconfig_regex iface) (Suc 0)"
        by (rule search_output_caps)
      then show ?thesis using caps_ifconfig [of iface] by (simp add: agrees_hwaddr)
    next
      case False
      with so Inr Cons.prems have "ifconfig_loop h iface args w1 = (Inr (Some m), w')"
        by auto
      then show ?thesis by (rule Cons.IH)
    qed
  qed
qed

lemma unix_ifconfig_agrees:
  "unix_ifconfig_by_interface h iface w = (Inr (Some m), w') \<Longrightarrow> insert_agrees m"
  unfolding unix_ifconfig_by_interface_def by (rule ifconfig_loop_agrees)

lemma unix_ip_ip_agrees:
  "unix_ip_ip_command h addr w = (Inr (Some m), w') \<Longrightarrow> insert_agrees m"
  by (simp add: unix_ip_ip_command_def)

lemma unix_fcntl_agrees:
  assumes "unix_fcntl_by_interface h iface w = (Inr (Some m), w')"
  shows "insert_agrees m"
proof -
  from assms obtain info where
    m: "m = RStr (py_join '':'' (map (\<lambda>char. format_02x (of_char char)) (take 6 (drop 18 info))))"
    by (auto simp: unix_fcntl_by_interface_def split: prod.splits sum.splits)
  have "\<And>c. length (format_02x (of_char c)) = 2 \<and> list_all is_lower_hex (format_02x (of_char c))"
  proof -
    fix c :: char
    obtain a b where "format_02x (of_char c) = [a, b]" "is_lower_hex a" "is_lower_hex b"
      using format_02x_byte [OF of_char_byte [of c]] by blast
    then show "length (format_02x (of_char c)) = 2 \<and> list_all is_lower_hex (format_02x (of_char c))"
      by simp
  qed
  then have "list_all (\<lambda>p. length p = 2 \<and> list_all is_lower_hex p)
      (map (\<lambda>char. format_02x (of_char char)) (take 6 (drop 18 info)))"
    by (simp add: list_all_iff)
  then show ?thesis unfolding m by (rule agrees_join)
qed

lemma send_arp_text_agrees:
  assumes "send_arp_text h inetaddr w = (Inr (Some m), w')"
  shows "insert_agrees m"
proof -
  from assms obtain buffer where b: "length buffer = 6"
    and m: "m = RStr (foldl (\<lambda>macaddr intval. macaddr @ byte_text intval) []
                 (map of_char buffer))"
    by (auto simp: send_arp_text_def unpack_6B_def split: prod.splits sum.splits if_splits)
  let ?ps = "map byte_text (map of_char buffer)"
  have "\<And>c :: char. length (byte_text (of_char c)) = 2 \<and> list_all is_lower_hex (byte_text (of_char c))"
  proof -
    fix c :: char
    obtain a b where "byte_text (of_char c) = [a, b]" "is_lower_hex a" "is_lower_hex b"
      using byte_text_byte [OF of_char_byte [of c]] by blast
    then show "length (byte_text (of_char c)) = 2 \<and> list_all is_lower_hex (byte_text (of_char c))"
      by simp
  qed
  then have "list_all (\<lambda>p. length p = 2 \<and> list_all is_lower_hex p) ?ps"
    by (simp add: list_all_iff)
  from concat_pairs [OF this] b
  have "length (concat ?ps) = 12" "list_all is_lower_hex (concat ?ps)" by simp_all
  then have "insert_agrees (RStr (concat ?ps))" by (rule agrees_twelve(1))
  then show ?thesis unfolding m by (simp add: foldl_append_concat)
qed

lemma windows_get_remote_mac_agrees:
  assumes "windows_get_remote_mac h host0 w = (Inr (Some m), w')"
  shows "insert_agrees m"
proof -
  from assms obtain inetaddr w1 where "send_arp_text h inetaddr w1 = (Inr (Some m), w')"
    by (auto simp: windows_get_remote_mac_def Let_def
        split: if_splits option.splits sum.splits prod.splits)
  then show ?thesis by (rule send_arp_text_agrees)
qed

lemma unix_lanscan_agrees:
  assumes "unix_lanscan_interface h iface w = (Inr (Some m), w')"
  shows "insert_agrees m"
proof -
  from assms obtain proc mac where
    "scan_lines proc [iface] (\<lambda>i. 0) = Inr (Some mac)" "m = RInt mac"
    by (auto simp: unix_lanscan_interface_def find_mac_def split: prod.splits sum.splits)
  then show ?thesis using scan_lines_bound [of proc iface mac] by (simp add: agrees_small_int)
qed

lemma try_funcs_agrees:
  assumes "\<And>f x w w' m. f \<in> set fs \<Longrightarrow> f x w = (Inr (Some m), w') \<Longrightarrow> insert_agrees m"
    and "try_funcs fs arg w = (Some mac, w2)"
  shows "insert_agrees mac"
proof -
  from try_funcs_some [OF assms(2)] obtain pre f post w1 where
    "fs = pre @ f # post" "f arg w1 = (Inr (Some mac), w2)" by blast
  then show ?thesis using assms(1) [of f arg w1 mac w2] by simp
qed

lemma remote_funcs_agrees:
  assumes "f \<in> set (remote_funcs h)" and "f x w = (Inr (Some m), w')"
  shows "insert_agrees m"
proof (cases "win32 h")
  case True
  with assms show ?thesis by (auto simp: remote_funcs_def dest: windows_get_remote_mac_agrees)
next
  case False
  with assms(1) consider "f = unix_ip_arp_command h" | "f = unix_ip_cat_arp h"
    | "f = unix_ip_ip_command h"
    by (auto simp: remote_funcs_def)
  then show ?thesis
    using assms(2)
    by cases (auto dest: unix_ip_arp_agrees unix_ip_cat_arp_agrees unix_ip_ip_agrees)
qed

lemma interface_funcs_agrees:
  assumes "f \<in> set (interface_funcs h)" and "f x w = (Inr (Some m), w')"
  shows "insert_agrees m"
proof (cases "win32 h")
  case True
  with assms show ?thesis
    by (auto simp: interface_funcs_def dest: windows_ipconfig_agrees)
next
  case False
  with assms(1) consider "f = unix_ifconfig_by_interface h" | "f = unix_interface_ip_command h"
    | "f = unix_netstat_by_interface h" | "f = unix_fcntl_by_interface h"
    | "f = unix_lanscan_interface h"
    by (auto simp: interface_funcs_def)
  then show ?thesis
    using assms(2)
    by cases (auto dest: unix_ifconfig_agrees unix_interface_ip_agrees unix_netstat_agrees
        unix_fcntl_agrees unix_lanscan_agrees)
qed

lemma engine_candidate_agrees:
  assumes "fs = remote_funcs h \<or> fs = interface_funcs h \<or> fs = []"
    and "try_funcs fs arg w = (Some m, w')"
  shows "insert_agrees m"
proof -
  from assms(1) consider "fs = remote_funcs h" | "fs = interface_funcs h" | "fs = []" by blast
  then show ?thesis
  proof cases
    case 1
    from remote_funcs_agrees assms(2) [unfolded 1] show ?thesis by (rule try_funcs_agrees)
  next
    case 2
    from interface_funcs_agrees assms(2) [unfolded 2] show ?thesis by (rule try_funcs_agrees)
  next
    case 3
    with assms(2) show ?thesis by simp
  qed
qed

lemma byte_text_values:
  "byte_text 0 = ''00''" "byte_text 26 = ''1a''" "byte_text 43 = ''2b''"
  "byte_text 60 = ''3c''" "byte_text 77 = ''4d''" "byte_text 94 = ''5e''"
  by (simp_all add: byte_text_def py_hex_def lower_hex_digits_def)

lemma run_send_arp:
  "try_funcs (remote_funcs windows_box) ''10.0.0.1'' [] =
     (Some (RStr ''001a2b3c4d5e''), [Lookup ''SendARP''])"
  by (simp add: remote_funcs_def windows_box_def windows_get_remote_mac_def send_arp_text_def
      unpack_6B_def byte_text_values py_lower_def lower_char_def upper_letters_def
      lower_letters_def)

section \<open>The claims about normalisation\<close>

text \<open>
  C7. Every raw candidate of exactly twelve hexadecimal characters (no separators)
  normalises to the 17-character form obtained by lowercasing it and putting a colon after
  every two characters; the result is a canonical address. At \<open>aabbccddeeff\<close> the result
  is \<open>aa:bb:cc:dd:ee:ff\<close>.
\<close>

theorem normalize_twelve_hex:
  "length s = 12 \<Longrightarrow> list_all is_hex s \<Longrightarrow>
     normalize (RStr s) = Some (colon_every_two (py_lower s)) \<and>
     length (colon_every_two (py_lower s)) = 17 \<and>
     canonical (colon_every_two (py_lower s))"
proof -
  assume len: "length s = 12" and hex: "list_all is_hex s"
  let ?t = "py_lower s"
  have lh: "list_all is_lower_hex ?t" using hex by (rule py_lower_hex)
  then have pl: "list_all plain ?t" by (rule lower_hex_plain)
  have lt: "length ?t = 12" using len by (simp add: py_lower_length)
  have "cleaned (RStr s) = ?t"
    using pl by (simp add: cleaned_def py_strip_plain py_replace_absent plain_no_hyphen)
  then have "normalize (RStr s) = require_17 (colon_every_two ?t)"
    using lt by (simp add: normalize_def fix_no_colons_def insert_applies_def add_colons_eq)
  then show ?thesis
    using lt lh by (simp add: require_17_def colon_every_two_length colon_every_two_canonical)
qed

theorem normalize_twelve_hex_witness:
  "length ''aabbccddeeff'' = 12 \<and> list_all is_hex ''aabbccddeeff'' \<and>
   normalize (RStr ''aabbccddeeff'') = Some ''aa:bb:cc:dd:ee:ff''"
  using normalize_twelve_hex [of "''aabbccddeeff''"]
  by (simp add: is_hex_def hex_digits_any_def py_lower_def lower_char_def upper_letters_def
      lower_letters_def)

text \<open>
  C8. Normalisation is idempotent: a canonical address (six groups of two lowercase
  hexadecimal digits joined by colons, 17 characters) normalises to itself.
\<close>

theorem normalize_canonical_idem: "canonical s \<Longrightarrow> normalize (RStr s) = Some s"
  by (rule normalize_canonical)

theorem normalize_canonical_idem_witness:
  "canonical ''aa:bb:cc:dd:ee:ff'' \<and> normalize (RStr ''aa:bb:cc:dd:ee:ff'') = Some ''aa:bb:cc:dd:ee:ff''"
  using normalize_canonical_idem [of "''aa:bb:cc:dd:ee:ff''"]
  by (simp add: canonical_def numeral_eq_Suc is_lower_hex_def lower_hex_digits_def)

text \<open>
  C6. In the normalisation of \<^verbatim>\<open>get_mac_address\<close> (lines 126--139) the colons are inserted
  exactly when the cleaned text (lowercased, stripped, hyphens replaced, spaces removed) has
  no colons and is twelve hexadecimal characters, and not otherwise. The text that is
  normalised is the value that the probe loop (lines 113--123) hands over, and the loop runs
  over one of three lists: the probes for a remote address, the probes for a local
  interface, or no probe at all. For every candidate \<open>m\<close> that the loop can hand over from
  one of these lists, on any host, the guard of the code (\<^verbatim>\<open>len(mac) == 12\<close>) holds exactly
  when the condition of the specification does, and the text after the step is the cleaned
  text with a colon after every two characters when the condition holds and the cleaned
  text unchanged when it does not.
\<close>

theorem insert_exactly_on_twelve_hex:
  "fs = remote_funcs h \<or> fs = interface_funcs h \<or> fs = [] \<Longrightarrow>
   try_funcs fs arg w = (Some m, w') \<Longrightarrow>
     insert_applies (cleaned m) = spec_insert_condition (cleaned m) \<and>
     fix_no_colons (cleaned m) =
       (if spec_insert_condition (cleaned m) then colon_every_two (cleaned m) else cleaned m)"
proof -
  assume "fs = remote_funcs h \<or> fs = interface_funcs h \<or> fs = []"
    and "try_funcs fs arg w = (Some m, w')"
  then have "insert_agrees m" by (rule engine_candidate_agrees)
  then have a: "insert_applies (cleaned m) = spec_insert_condition (cleaned m)"
    by (simp add: insert_agrees_def)
  then show ?thesis by (simp add: fix_no_colons_def add_colons_eq)
qed

theorem insert_exactly_on_twelve_hex_witness:
  "try_funcs (remote_funcs windows_box) ''10.0.0.1'' [] =
     (Some (RStr ''001a2b3c4d5e''), [Lookup ''SendARP'']) \<and>
   cleaned (RStr ''001a2b3c4d5e'') = ''001a2b3c4d5e'' \<and>
   insert_applies (cleaned (RStr ''001a2b3c4d5e'')) \<and>
   spec_insert_condition (cleaned (RStr ''001a2b3c4d5e'')) \<and>
   fix_no_colons (cleaned (RStr ''001a2b3c4d5e'')) = ''00:1a:2b:3c:4d:5e''"
proof -
  have c: "cleaned (RStr ''001a2b3c4d5e'') = ''001a2b3c4d5e''"
    by (simp add: cleaned_def py_lower_def lower_char_def upper_letters_def lower_letters_def
        py_strip_def py_lstrip_def py_rstrip_def is_space_def whitespace_def py_replace_def)
  have s: "spec_insert_condition ''001a2b3c4d5e''"
    by (simp add: spec_insert_condition_def is_hex_def hex_digits_any_def)
  from insert_exactly_on_twelve_hex [of "remote_funcs windows_box" windows_box
      "''10.0.0.1''" "[]" "RStr ''001a2b3c4d5e''" "[Lookup ''SendARP'']"]
  show ?thesis
    unfolding c by (simp add: run_send_arp s)
qed

section \<open>The claims about the resolution engine\<close>

text \<open>
  C1. Whatever the host answers, a value that \<^verbatim>\<open>get_mac_address\<close> returns is either
  \<^verbatim>\<open>None\<close> or a canonical address: six groups of two lowercase hexadecimal digits joined
  by colons, 17 characters in all. (The candidates come from the probes of this module: the
  groups of their patterns, the bytes of the two system calls and the integer of
  \<^verbatim>\<open>_find_mac\<close>.)
\<close>

theorem get_mac_address_canonical:
  "get_mac_address h a w = (Inr (Some mac), w') \<Longrightarrow> canonical mac \<and> length mac = 17"
  using get_mac_address_result [of h a w mac w'] by (simp add: canonical_def)

theorem get_mac_address_canonical_witness:
  "get_mac_address (unix_box arp_table no_names)
     (no_selector\<lparr>ip := Some ''10.0.0.1'', network_request := False\<rparr>) [] =
     (Inr (Some ''00:1a:2b:3c:4d:5e''), [Exec [''arp'', ''-an'']]) \<and>
   canonical ''00:1a:2b:3c:4d:5e'' \<and> length ''00:1a:2b:3c:4d:5e'' = 17"
  using get_mac_address_canonical [OF run_arp] run_arp by simp

text \<open>
  C3. The probe loop calls the probes in the order of the list, each on the state that the
  one before left. A probe that raises and a probe that returns \<^verbatim>\<open>None\<close> are treated alike:
  the loop goes on with the rest of the list. At the first probe that returns a candidate
  the loop stops with that candidate and the state this probe left, whatever probes follow
  in the list: none of them is called. A candidate that the loop returns is the one of the
  first probe that returned one.
\<close>

theorem probe_loop_first_success:
  "(try_funcs pre arg w = (None, w1) \<longrightarrow> try_funcs (pre @ post) arg w = try_funcs post arg w1) \<and>
   (f arg w = (Inl e, w1) \<or> f arg w = (Inr None, w1) \<longrightarrow>
      try_funcs (f # fs) arg w = try_funcs fs arg w1) \<and>
   (try_funcs pre arg w = (None, w1) \<and> f arg w1 = (Inr (Some mac), w2) \<longrightarrow>
      try_funcs (pre @ f # post) arg w = (Some mac, w2)) \<and>
   (try_funcs fs arg w = (Some mac, w2) \<longrightarrow>
      (\<exists>pre f post w1. fs = pre @ f # post \<and> try_funcs pre arg w = (None, w1) \<and>
         f arg w1 = (Inr (Some mac), w2)))"
  using try_funcs_append_none [of pre arg w w1 post] try_funcs_skip [of f arg w e w1 fs]
    try_funcs_first_success [of pre arg w w1 f mac w2 post] try_funcs_some [of fs arg w mac w2]
  by blast

theorem probe_loop_first_success_witness:
  "try_funcs [probe_raises] ''eth0'' [] = (None, [''first'']) \<and>
   probe_finds ''eth0'' [''first''] =
     (Inr (Some (RStr ''AA-BB-CC-DD-EE-FF'')), [''first'', ''second'']) \<and>
   try_funcs [probe_raises, probe_finds, probe_other] ''eth0'' [] =
     (Some (RStr ''AA-BB-CC-DD-EE-FF''), [''first'', ''second'']) \<and>
   finish (try_funcs [probe_raises, probe_finds, probe_other] ''eth0'' []) =
     (Inr (Some ''aa:bb:cc:dd:ee:ff''), [''first'', ''second''])"
proof -
  have a: "try_funcs [probe_raises] ''eth0'' [] = (None, [''first''])"
    by (simp add: probe_raises_def)
  have b: "probe_finds ''eth0'' [''first''] =
      (Inr (Some (RStr ''AA-BB-CC-DD-EE-FF'')), [''first'', ''second''])"
    by (simp add: probe_finds_def)
  have n: "normalize (RStr ''AA-BB-CC-DD-EE-FF'') = Some ''aa:bb:cc:dd:ee:ff''"
    by (simp add: normalize_cases cleaned_def py_lower_def lower_char_def upper_letters_def
        lower_letters_def py_strip_def py_lstrip_def py_rstrip_def is_space_def whitespace_def
        py_replace_def)
  from probe_loop_first_success [of "[probe_raises]" "''eth0''" "[]" "[''first'']"
      "[probe_other]" probe_finds _ _ "RStr ''AA-BB-CC-DD-EE-FF''" "[''first'', ''second'']"] a b
  have c: "try_funcs [probe_raises, probe_finds, probe_other] ''eth0'' [] =
      (Some (RStr ''AA-BB-CC-DD-EE-FF''), [''first'', ''second''])"
    by simp
  show ?thesis using a b c n by (simp add: finish_def)
qed

text \<open>
  C10. \<^verbatim>\<open>_find_mac\<close> iterates over the characters of the command's output, so the words of
  each ``line'' are no word at all (for a whitespace character) or one word of a single
  character. An interface name of more than one character never equals such a word:
  \<^verbatim>\<open>_unix_lanscan_interface\<close> then returns \<^verbatim>\<open>None\<close> whenever the command ran, whatever it
  printed, and raises what \<^verbatim>\<open>_popen\<close> raised otherwise. It never produces a candidate.
\<close>

theorem lanscan_long_name_nothing:
  "(words_of line = [] \<or> words_of line = [[lower_char line]]) \<and>
   (1 < length iface \<longrightarrow>
      unix_lanscan_interface h iface w =
        (case popen h ''lanscan'' (Some ''-ai'') w of
           (Inl e, w') \<Rightarrow> (Inl e, w')
         | (Inr output, w') \<Rightarrow> (Inr None, w')))"
  by (auto simp: words_of_char unix_lanscan_interface_def find_mac_def scan_lines_long_name
      split: prod.splits sum.splits)

theorem lanscan_long_name_nothing_witness:
  "1 < length ''lan0'' \<and>
   popen (unix_box lanscan_table no_names) ''lanscan'' (Some ''-ai'') [] =
     (Inr ''0x001A4B0C1D2E lan0 snap0'', [Exec [''lanscan'', ''-ai'']]) \<and>
   unix_lanscan_interface (unix_box lanscan_table no_names) ''lan0'' [] =
     (Inr None, [Exec [''lanscan'', ''-ai'']])"
proof -
  have p: "popen (unix_box lanscan_table no_names) ''lanscan'' (Some ''-ai'') [] =
      (Inr ''0x001A4B0C1D2E lan0 snap0'', [Exec [''lanscan'', ''-ai'']])"
    by (simp add: popen_unix_box split_ai lanscan_table_def)
  from lanscan_long_name_nothing [of "CHR ''l''" "''lan0''" "unix_box lanscan_table no_names" "[]"]
  show ?thesis unfolding p by simp
qed

text \<open>
  C2, at a failing input. The documentation of \<^verbatim>\<open>get_mac_address\<close> says that exceptions
  are handled silently and returned as \<^verbatim>\<open>None\<close>. The priming \<^verbatim>\<open>ping\<close> stands outside the
  \<^verbatim>\<open>try\<close> of the probe loop: on a host where \<^verbatim>\<open>ping -c 1 10.0.0.1\<close> exits with status 1,
  the call for \<^verbatim>\<open>ip='10.0.0.1'\<close> raises \<^verbatim>\<open>CalledProcessError\<close>, and no probe is run.
\<close>

theorem ping_failure_escapes:
  "get_mac_address (unix_box (failing 1) no_names) (no_selector\<lparr>ip := Some ''10.0.0.1''\<rparr>) [] =
     (Inl (CalledProcessError 1), [Exec [''ping'', ''-c'', ''1'', ''10.0.0.1'']])"
  by (rule run_ping_fails)

text \<open>
  C4, at a failing input. With \<^verbatim>\<open>network_request\<close> left at its default and only an
  interface name given, the module still runs \<^verbatim>\<open>ping6 -c 1 None\<close> (the comment above the
  code asks for the interface case to be moved so that no ping is tried if no IP is set),
  and the failure of that command is raised to the caller.
\<close>

theorem ping_without_address:
  "get_mac_address (unix_box (failing 2) no_names) (no_selector\<lparr>interface := Some ''eth0''\<rparr>) [] =
     (Inl (CalledProcessError 2), [Exec [''ping6'', ''-c'', ''1'', ''None'']])"
  by (rule run_interface_pings)

text \<open>
  C5, at a failing input. \<^verbatim>\<open>socket.gethostbyname\<close> is called outside every \<^verbatim>\<open>try\<close>: when
  the name is unknown, its exception is raised to the caller instead of \<^verbatim>\<open>None\<close> being
  returned. Nothing else has been asked of the host by then.
\<close>

theorem hostname_failure_escapes:
  "get_mac_address (unix_box (failing 1) no_names)
     (no_selector\<lparr>hostname := Some ''nosuch.invalid''\<rparr>) [] =
     (Inl HostLookupError, [Lookup ''nosuch.invalid''])"
  by (rule run_hostname_unknown)

text \<open>
  C9, at a failing input. For an IPv6 address on a host without IPv6 support the module
  first runs \<^verbatim>\<open>ping6\<close> (\<^verbatim>\<open>network_request\<close> is true by default); when that command fails,
  its exception is raised before the test of \<^verbatim>\<open>socket.has_ipv6\<close> is reached, and no warning
  is given. With \<^verbatim>\<open>network_request=False\<close> the same call gives the warning and returns
  \<^verbatim>\<open>None\<close>, and no probe is run.
\<close>

theorem ipv6_unsupported_ping_escapes:
  "get_mac_address (unix_box (failing 2) no_names) (no_selector\<lparr>ip6 := Some ''fe80::1''\<rparr>) [] =
     (Inl (CalledProcessError 2), [Exec [''ping6'', ''-c'', ''1'', ''fe80::1'']]) \<and>
   get_mac_address (unix_box (failing 2) no_names)
     (no_selector\<lparr>ip6 := Some ''fe80::1'', network_request := False\<rparr>) [] =
     (Inr None, [Warning ipv6_warning])"
  using run_ipv6_ping_fails run_ipv6_no_ping by simp

end
